theory Spec2Isabelle
  imports Main "HOL-Library.Sublist" "HOL-Library.AList"
begin

section \<open>JavaScript strings\<close>

text \<open>
  Strings are HOL strings.  The model of \<open>toLowerCase\<close> maps the letters A to Z to
  a to z and leaves every other character alone, so it is exact on ASCII text.
  \<open>s.includes(k)\<close> holds when \<open>k\<close> is a contiguous part of \<open>s\<close>; the empty string is
  included in every string, as in JavaScript.  A string is truthy when it is not empty.
\<close>

definition toLowerChar :: "char \<Rightarrow> char" where
  "toLowerChar c =
     (case map_of (zip ''ABCDEFGHIJKLMNOPQRSTUVWXYZ'' ''abcdefghijklmnopqrstuvwxyz'') c of
        None \<Rightarrow> c
      | Some d \<Rightarrow> d)"

definition toLowerCase :: "string \<Rightarrow> string" where
  "toLowerCase s = map toLowerChar s"

text \<open>
  Upper-casing of the letters a to z alone, as the browser applies it to the tag name of
  an HTML element.
\<close>

definition toUpperChar :: "char \<Rightarrow> char" where
  "toUpperChar c =
     (case map_of (zip ''abcdefghijklmnopqrstuvwxyz'' ''ABCDEFGHIJKLMNOPQRSTUVWXYZ'') c of
        None \<Rightarrow> c
      | Some d \<Rightarrow> d)"

definition toUpperCase :: "string \<Rightarrow> string" where
  "toUpperCase s = map toUpperChar s"

definition str_includes :: "string \<Rightarrow> string \<Rightarrow> bool" where
  "str_includes s k = sublist k s"

fun join :: "string \<Rightarrow> string list \<Rightarrow> string" where
  "join sep [] = []"
| "join sep [x] = x"
| "join sep (x # y # ys) = x @ sep @ join sep (y # ys)"

text \<open>An optional string is falsy when it is undefined or empty (\<open>!m.id\<close>).\<close>

definition falsy :: "string option \<Rightarrow> bool" where
  "falsy x = (x = None \<or> x = Some [])"

text \<open>The truthy strings among optional ones (\<open>filter(Boolean)\<close>, \<open>if (x) push(x)\<close>).\<close>

definition truthyStrings :: "string option list \<Rightarrow> string list" where
  "truthyStrings xs = concat (map (\<lambda>x. case x of None \<Rightarrow> [] | Some s \<Rightarrow> if s = [] then [] else [s]) xs)"

section \<open>Data model (types.ts)\<close>

datatype FieldType =
    TEXT | EMAIL | PASSWORD | TELEPHONE | NUMBER | DATE | TEXTAREA | SELECT
  | CHECKBOX | RADIO | URL | SEARCH | COLOR | RANGE | FILE | MONTH | WEEK | TIME
  | DATETIME | UNKNOWN

text \<open>
  An element is referred to by its position in the document tree: the list of child
  indices leading from the root to it.  Two detected fields that hold the same path
  refer to the same element.
\<close>

type_synonym path = "nat list"

record DetectedField =
  f_id :: string
  f_name :: string
  f_type :: FieldType
  f_element :: path
  f_label :: "string option"
  f_placeholder :: "string option"
  f_attributes :: "(string \<times> string) list"

text \<open>\<open>value: string | boolean | string[]\<close>\<close>

datatype MappingValue = VString string | VBoolean bool | VArray "string list"

record FieldMapping =
  m_id :: "string option"
  m_name :: "string option"
  m_type :: "FieldType option"
  m_label :: "string option"
  m_placeholder :: "string option"
  m_keywords :: "string list option"
  m_value :: MappingValue

section \<open>FormFiller.findBestMapping\<close>

text \<open>
  Priority 1 and 2: \<open>if (field.id) { const idMatch = mappings.find(m => m.id === field.id);
  if (idMatch) return idMatch; }\<close>, and the same for the name.
\<close>

definition idMatch :: "FieldMapping list \<Rightarrow> DetectedField \<Rightarrow> FieldMapping option" where
  "idMatch ms f = (if f_id f \<noteq> [] then find (\<lambda>m. m_id m = Some (f_id f)) ms else None)"

definition nameMatch :: "FieldMapping list \<Rightarrow> DetectedField \<Rightarrow> FieldMapping option" where
  "nameMatch ms f = (if f_name f \<noteq> [] then find (\<lambda>m. m_name m = Some (f_name f)) ms else None)"

text \<open>
  Both scoring tiers end in the same loop: a mapping without keywords is skipped, and a
  mapping replaces the best one so far only when its score is strictly greater.  The
  loop starts from no mapping and score 0.
\<close>

fun bestMatchLoop ::
  "(string list \<Rightarrow> nat) \<Rightarrow> FieldMapping list \<Rightarrow> FieldMapping option \<times> nat \<Rightarrow> FieldMapping option \<times> nat"
where
  "bestMatchLoop sc [] best = best"
| "bestMatchLoop sc (m # ms) (bestMatch, bestMatchScore) =
     (case m_keywords m of
        None \<Rightarrow> bestMatchLoop sc ms (bestMatch, bestMatchScore)
      | Some kws \<Rightarrow>
          (let score = sc kws in
           if score > bestMatchScore then bestMatchLoop sc ms (Some m, score)
           else bestMatchLoop sc ms (bestMatch, bestMatchScore)))"

text \<open>Priority 3: the mappings without id and name whose type is the field's type.\<close>

definition typeMatches :: "FieldMapping list \<Rightarrow> DetectedField \<Rightarrow> FieldMapping list" where
  "typeMatches ms f =
     filter (\<lambda>m. falsy (m_id m) \<and> falsy (m_name m) \<and> m_type m = Some (f_type f)) ms"

definition usefulAttrs :: "string list" where
  "usefulAttrs = [''title'', ''alt'', ''aria-label'', ''data-label'']"

text \<open>The array \<open>keywords\<close> built from the field: label, placeholder, useful attributes, name.\<close>

definition fieldKeywords :: "DetectedField \<Rightarrow> string list" where
  "fieldKeywords f =
     map toLowerCase
       (truthyStrings [f_label f, f_placeholder f]
        @ truthyStrings (map (map_of (f_attributes f)) usefulAttrs)
        @ truthyStrings [Some (f_name f)])"

text \<open>
  The two nested \<open>forEach\<close> loops: for every keyword of the mapping and every entry of
  the field's array, \<open>score++\<close> when the entry includes the keyword and \<open>score++\<close> again
  when they are equal.
\<close>

definition keywordScore :: "string list \<Rightarrow> string list \<Rightarrow> nat" where
  "keywordScore fieldKws kws =
     fold (\<lambda>keyword score.
             fold (\<lambda>fieldKeyword score.
                     if str_includes fieldKeyword (toLowerCase keyword)
                     then (if fieldKeyword = toLowerCase keyword then score + 1 + 1 else score + 1)
                     else score)
                  fieldKws score)
          kws 0"

definition typeKeywordMatch :: "FieldMapping list \<Rightarrow> DetectedField \<Rightarrow> FieldMapping option" where
  "typeKeywordMatch ms f =
     (if typeMatches ms f \<noteq> []
      then fst (bestMatchLoop (keywordScore (fieldKeywords f)) (typeMatches ms f) (None, 0))
      else None)"

text \<open>
  Priority 4: the mappings without id and name that have keywords, scored against one
  text: label, placeholder, name and all attribute values, joined by spaces.
  \<open>Object.values\<close> is modelled as the values in the order the attributes were inserted.
\<close>

definition keywordMatches :: "FieldMapping list \<Rightarrow> FieldMapping list" where
  "keywordMatches ms =
     filter (\<lambda>m. falsy (m_id m) \<and> falsy (m_name m) \<and>
                 (case m_keywords m of None \<Rightarrow> False | Some kws \<Rightarrow> length kws > 0)) ms"

definition fieldText :: "DetectedField \<Rightarrow> string" where
  "fieldText f =
     toLowerCase (join '' ''
       (truthyStrings ([f_label f, f_placeholder f, Some (f_name f)]
                       @ map (\<lambda>kv. Some (snd kv)) (f_attributes f))))"

definition textScore :: "string \<Rightarrow> string list \<Rightarrow> nat" where
  "textScore txt kws =
     fold (\<lambda>keyword score. if str_includes txt (toLowerCase keyword) then score + 1 else score) kws 0"

definition keywordOnlyMatch :: "FieldMapping list \<Rightarrow> DetectedField \<Rightarrow> FieldMapping option" where
  "keywordOnlyMatch ms f =
     (if keywordMatches ms \<noteq> [] \<and>
         (\<not> falsy (f_label f) \<or> \<not> falsy (f_placeholder f) \<or> f_name f \<noteq> [])
      then fst (bestMatchLoop (textScore (fieldText f)) (keywordMatches ms) (None, 0))
      else None)"

text \<open>Priority 5: the first mapping of the field's type.\<close>

definition typeFallback :: "FieldMapping list \<Rightarrow> DetectedField \<Rightarrow> FieldMapping option" where
  "typeFallback ms f = find (\<lambda>m. m_type m = Some (f_type f)) ms"

definition findBestMapping :: "FieldMapping list \<Rightarrow> DetectedField \<Rightarrow> FieldMapping option" where
  "findBestMapping ms f =
     (case idMatch ms f of
        Some m \<Rightarrow> Some m
      | None \<Rightarrow>
          (case nameMatch ms f of
             Some m \<Rightarrow> Some m
           | None \<Rightarrow>
               (case typeKeywordMatch ms f of
                  Some m \<Rightarrow> Some m
                | None \<Rightarrow>
                    (case keywordOnlyMatch ms f of
                       Some m \<Rightarrow> Some m
                     | None \<Rightarrow> typeFallback ms f))))"

subsection \<open>Scores of the type and keyword tier\<close>

text \<open>
  What one pair of a field entry and a lowercased keyword adds to the score in the
  nested loops: nothing when the entry does not include the keyword, 1 when it does,
  2 when they are equal.
\<close>

definition matchPoints :: "string \<Rightarrow> string \<Rightarrow> nat" where
  "matchPoints fieldKeyword keywordLower =
     (if str_includes fieldKeyword keywordLower
      then (if fieldKeyword = keywordLower then 2 else 1) else 0)"

text \<open>
  The score the loop compares for a mapping: a mapping without keywords is skipped,
  which is the same as a score of 0, since only a score above the best one replaces it.
\<close>

definition kwScore :: "(string list \<Rightarrow> nat) \<Rightarrow> FieldMapping \<Rightarrow> nat" where
  "kwScore sc m = (case m_keywords m of None \<Rightarrow> 0 | Some kws \<Rightarrow> sc kws)"

definition mappingScore :: "DetectedField \<Rightarrow> FieldMapping \<Rightarrow> nat" where
  "mappingScore f m = kwScore (keywordScore (fieldKeywords f)) m"

text \<open>
  The score as the specification words it, for comparison: a keyword counts 1 when it
  is a substring of at least one entry, and 1 more when it is equal to an entry, so at
  most 2 for a keyword.
\<close>

definition spec_keywordScore :: "string list \<Rightarrow> string list \<Rightarrow> nat" where
  "spec_keywordScore fieldKws kws =
     sum_list (map (\<lambda>keyword.
        if list_ex (\<lambda>e. str_includes e (toLowerCase keyword)) fieldKws
        then (if list_ex (\<lambda>e. e = toLowerCase keyword) fieldKws then 2 else 1)
        else 0) kws)"

subsection \<open>Example: a keyword found in several entries\<close>

definition c1_field :: DetectedField where
  "c1_field = \<lparr>f_id = [], f_name = ''email'', f_type = EMAIL, f_element = [0, 0],
     f_label = Some ''Contact Email'', f_placeholder = Some ''Email'',
     f_attributes = [(''name'', ''email''), (''type'', ''email''), (''placeholder'', ''Email'')]\<rparr>"

definition c1_M1 :: FieldMapping where
  "c1_M1 = \<lparr>m_id = None, m_name = None, m_type = Some EMAIL, m_label = None,
     m_placeholder = None, m_keywords = Some [''contact'', ''con'', ''tact''],
     m_value = VString ''first@example.com''\<rparr>"

definition c1_M2 :: FieldMapping where
  "c1_M2 = \<lparr>m_id = None, m_name = None, m_type = Some EMAIL, m_label = None,
     m_placeholder = None, m_keywords = Some [''email''],
     m_value = VString ''second@example.com''\<rparr>"

subsection \<open>Example: a field matched by id and by keywords\<close>

definition c2_field :: DetectedField where
  "c2_field = \<lparr>f_id = ''email'', f_name = [], f_type = EMAIL, f_element = [0, 1],
     f_label = Some ''Email'', f_placeholder = None,
     f_attributes = [(''id'', ''email''), (''type'', ''email'')]\<rparr>"

definition c2_A :: FieldMapping where
  "c2_A = \<lparr>m_id = Some ''email'', m_name = None, m_type = None, m_label = None,
     m_placeholder = None, m_keywords = None, m_value = VString ''by-id@example.com''\<rparr>"

definition c2_B :: FieldMapping where
  "c2_B = \<lparr>m_id = None, m_name = None, m_type = Some EMAIL, m_label = None,
     m_placeholder = None, m_keywords = Some [''email'', ''e-mail''],
     m_value = VString ''test@example.com''\<rparr>"

section \<open>The document\<close>

text \<open>
  A document is a tree of elements and text nodes, rooted at the document element,
  together with \<open>document.body\<close>, which is an element of the tree or \<open>null\<close>.
  An element has a local name and may have a namespace prefix; its attributes are kept
  in order.  The flag of an element says that it is an HTML element of an HTML
  document: the browser reports the tag name of such an element in upper case.
  \<open>tagName\<close> is the qualified name, prefix and local name joined by a colon.  A type
  selector such as \<open>input\<close> matches an element by its local name, whatever its prefix.
\<close>

datatype node =
    Elem bool "string option" string "(string \<times> string) list" "node list"
  | Text string

record Document =
  d_root :: node
  d_body :: "path option"

text \<open>An element as the HTML parser creates it: no prefix, tag name in upper case.\<close>

definition htmlTag :: "string \<Rightarrow> (string \<times> string) list \<Rightarrow> node list \<Rightarrow> node" where
  "htmlTag name attrs kids = Elem True None name attrs kids"

fun getAttribute :: "node \<Rightarrow> string \<Rightarrow> string option" where
  "getAttribute (Elem html pfx name attrs kids) a = map_of attrs a"
| "getAttribute (Text s) a = None"

definition hasAttribute :: "node \<Rightarrow> string \<Rightarrow> bool" where
  "hasAttribute element name = (getAttribute element name \<noteq> None)"

fun localName :: "node \<Rightarrow> string" where
  "localName (Elem html pfx name attrs kids) = name"
| "localName (Text s) = []"

fun prefixOf :: "node \<Rightarrow> string option" where
  "prefixOf (Elem html pfx name attrs kids) = pfx"
| "prefixOf (Text s) = None"

fun tagName :: "node \<Rightarrow> string" where
  "tagName (Elem html pfx name attrs kids) =
     (let qualifiedName = (case pfx of None \<Rightarrow> name | Some p \<Rightarrow> p @ '':'' @ name)
      in if html then toUpperCase qualifiedName else qualifiedName)"
| "tagName (Text s) = []"

fun isElement :: "node \<Rightarrow> bool" where
  "isElement (Elem html pfx name attrs kids) = True"
| "isElement (Text s) = False"

fun attributesOf :: "node \<Rightarrow> (string \<times> string) list" where
  "attributesOf (Elem html pfx name attrs kids) = attrs"
| "attributesOf (Text s) = []"

text \<open>The node at a path, if the path leads to one.\<close>

fun node_at :: "node \<Rightarrow> path \<Rightarrow> node option" where
  "node_at n [] = Some n"
| "node_at (Text s) (i # p) = None"
| "node_at (Elem html pfx name attrs kids) (i # p) =
     (if i < length kids then node_at (kids ! i) p else None)"

text \<open>
  The descendants of the node at path \<open>p\<close>, each with its own path, in document
  order; the node itself is not among them.
\<close>

fun descendants :: "path \<Rightarrow> node \<Rightarrow> (path \<times> node) list"
  and descendantsFrom :: "path \<Rightarrow> nat \<Rightarrow> node list \<Rightarrow> (path \<times> node) list"
where
  "descendants p (Text s) = []"
| "descendants p (Elem html pfx name attrs kids) = descendantsFrom p 0 kids"
| "descendantsFrom p i [] = []"
| "descendantsFrom p i (k # ks) =
     (p @ [i], k) # descendants (p @ [i]) k @ descendantsFrom p (Suc i) ks"

text \<open>
  Whether one of the type selectors of a list matches a node.  The selectors of the
  code are in lower case already, so the comparison with the local name is exact.
\<close>

definition matchesSelector :: "string list \<Rightarrow> node \<Rightarrow> bool" where
  "matchesSelector tags n = (isElement n \<and> localName n \<in> set tags)"

text \<open>
  \<open>element.querySelectorAll\<close> for a list of type selectors searches the descendants
  of the element; \<open>document.querySelectorAll\<close> searches the document element as well.
\<close>

definition querySelectorAll :: "string list \<Rightarrow> path \<Rightarrow> node \<Rightarrow> (path \<times> node) list" where
  "querySelectorAll tags p element =
     filter (\<lambda>(q, n). matchesSelector tags n) (descendants p element)"

definition documentQuerySelectorAll :: "string list \<Rightarrow> node \<Rightarrow> (path \<times> node) list" where
  "documentQuerySelectorAll tags root =
     filter (\<lambda>(q, n). matchesSelector tags n) (([], root) # descendants [] root)"

text \<open>\<open>document.body\<close>: the element at the body path, with its path, or \<open>null\<close>.\<close>

definition documentBody :: "Document \<Rightarrow> (path \<times> node) option" where
  "documentBody d =
     (case d_body d of
        None \<Rightarrow> None
      | Some p \<Rightarrow>
          (case node_at (d_root d) p of
             None \<Rightarrow> None
           | Some n \<Rightarrow> if isElement n then Some (p, n) else None))"

fun textContent :: "node \<Rightarrow> string" where
  "textContent (Text s) = s"
| "textContent (Elem html pfx name attrs kids) = concat (map textContent kids)"

definition isWhiteSpace :: "char \<Rightarrow> bool" where
  "isWhiteSpace c = (c \<in> set [CHR '' '', CHR 0x09, CHR 0x0A, CHR 0x0B, CHR 0x0C, CHR 0x0D])"

definition trim :: "string \<Rightarrow> string" where
  "trim s = rev (dropWhile isWhiteSpace (rev (dropWhile isWhiteSpace s)))"

text \<open>\<open>s.replace(pat, '')\<close> with a string pattern: the first occurrence is removed.\<close>

fun removeFirst :: "string \<Rightarrow> string \<Rightarrow> string" where
  "removeFirst pat [] = []"
| "removeFirst pat (c # cs) =
     (if prefix pat (c # cs) then drop (length pat) (c # cs) else c # removeFirst pat cs)"

text \<open>\<open>document.getElementById\<close>: the first element, in document order, with that id.\<close>

definition getElementById :: "node \<Rightarrow> string \<Rightarrow> node option" where
  "getElementById root i =
     map_option snd
       (find (\<lambda>(q, n). isElement n \<and> getAttribute n ''id'' = Some i) (([], root) # descendants [] root))"

text \<open>
  The chain of \<open>parentElement\<close> from the element at a path: the nodes at the proper
  prefixes of the path, the nearest first.
\<close>

fun ancestors :: "node \<Rightarrow> path \<Rightarrow> node list" where
  "ancestors root [] = []"
| "ancestors root (i # p) =
     (let q = butlast (i # p) in
      (case node_at root q of None \<Rightarrow> [] | Some n \<Rightarrow> [n]) @ ancestors root q)"

section \<open>FieldDetector\<close>

text \<open>The exceptions of the model: a TypeError of the language, a SyntaxError of the selector parser.\<close>

datatype exn = TypeError | SyntaxError

definition determineFieldType :: "node \<Rightarrow> FieldType" where
  "determineFieldType element =
     (let tagName = toLowerCase (tagName element) in
      if tagName = ''textarea'' then TEXTAREA
      else if tagName = ''select'' then SELECT
      else if tagName = ''input'' then
        (let typeAttr = getAttribute element ''type'' in
         if typeAttr = Some ''text'' then TEXT
         else if typeAttr = Some ''email'' then EMAIL
         else if typeAttr = Some ''password'' then PASSWORD
         else if typeAttr = Some ''tel'' then TELEPHONE
         else if typeAttr = Some ''number'' then NUMBER
         else if typeAttr = Some ''date'' then DATE
         else if typeAttr = Some ''checkbox'' then CHECKBOX
         else if typeAttr = Some ''radio'' then RADIO
         else if typeAttr = Some ''url'' then URL
         else if typeAttr = Some ''search'' then SEARCH
         else if typeAttr = Some ''color'' then COLOR
         else if typeAttr = Some ''range'' then RANGE
         else if typeAttr = Some ''file'' then FILE
         else if typeAttr = Some ''month'' then MONTH
         else if typeAttr = Some ''week'' then WEEK
         else if typeAttr = Some ''time'' then TIME
         else if typeAttr = Some ''datetime-local'' then DATETIME
         else TEXT)
      else UNKNOWN)"

text \<open>
  \<open>findLabelForElement\<close>.  The browser's \<open>document.querySelector\<close> is the parameter
  \<open>qs\<close>: it receives the selector text that the code builds from the id, and it either
  raises (the text need not be a valid selector) or returns the element found, if any.
  \<open>labelText\<close> is undefined or a string after each of the four methods.
\<close>

definition labelSelector :: "string \<Rightarrow> string" where
  "labelSelector i = ''label[for='' @ [CHR 0x22] @ i @ [CHR 0x22] @ '']''"

definition labelFromParent :: "node \<Rightarrow> path \<Rightarrow> node \<Rightarrow> string option \<Rightarrow> string option" where
  "labelFromParent root p element labelText =
     (case find (\<lambda>parent. toLowerCase (tagName parent) = ''label'') (ancestors root p) of
        None \<Rightarrow> labelText
      | Some parent \<Rightarrow>
          (let parentText = trim (textContent parent);
               elementText = trim (textContent element)
           in if parentText \<noteq> [] \<and> elementText \<noteq> []
              then Some (trim (removeFirst elementText parentText))
              else Some parentText))"

definition findLabelForElement ::
  "(string \<Rightarrow> exn + node option) \<Rightarrow> node \<Rightarrow> path \<Rightarrow> node \<Rightarrow> exn + string option"
where
  "findLabelForElement qs root p element =
     (case (case getAttribute element ''id'' of
              None \<Rightarrow> Inr None
            | Some i \<Rightarrow>
                if i = [] then Inr None
                else (case qs (labelSelector i) of
                        Inl e \<Rightarrow> Inl e
                      | Inr None \<Rightarrow> Inr None
                      | Inr (Some label) \<Rightarrow> Inr (Some (trim (textContent label))))) of
        Inl e \<Rightarrow> Inl e
      | Inr labelText1 \<Rightarrow>
          (let labelText2 =
                 (if falsy labelText1 then labelFromParent root p element labelText1 else labelText1);
               labelText3 =
                 (if falsy labelText2
                  then (if falsy (getAttribute element ''aria-label'') then None
                        else getAttribute element ''aria-label'')
                  else labelText2);
               labelText4 =
                 (if falsy labelText3
                  then (case getAttribute element ''aria-labelledby'' of
                          None \<Rightarrow> labelText3
                        | Some labelledBy \<Rightarrow>
                            if labelledBy = [] then labelText3
                            else (case getElementById root labelledBy of
                                    None \<Rightarrow> labelText3
                                  | Some labelElement \<Rightarrow> Some (trim (textContent labelElement))))
                  else labelText3)
           in Inr labelText4))"

text \<open>The exclusion test at the head of \<open>createDetectedField\<close>.\<close>

definition skipped :: "node \<Rightarrow> bool" where
  "skipped element =
     (getAttribute element ''type'' = Some ''hidden''
      \<or> getAttribute element ''type'' = Some ''submit''
      \<or> getAttribute element ''type'' = Some ''button''
      \<or> getAttribute element ''type'' = Some ''image''
      \<or> getAttribute element ''type'' = Some ''reset''
      \<or> hasAttribute element ''disabled'')"

text \<open>\<open>element.getAttribute(name) || ''\<close>\<close>

definition attributeOrEmpty :: "node \<Rightarrow> string \<Rightarrow> string" where
  "attributeOrEmpty element name = (case getAttribute element name of None \<Rightarrow> [] | Some s \<Rightarrow> s)"

text \<open>
  The \<open>attributes\<close> object: every attribute of the element assigned by name, then the
  marker \<open>isAutoComplete\<close>.  Assigning a key that is present replaces its value in
  place; a new key goes to the end.
\<close>

definition gatherAttributes :: "node \<Rightarrow> (string \<times> string) list" where
  "gatherAttributes element =
     (let attributes = fold (\<lambda>attr acc. AList.update (fst attr) (snd attr) acc) (attributesOf element) []
      in if getAttribute element ''autocomplete'' = Some ''off''
            \<or> hasAttribute element ''readonly''
            \<or> getAttribute element ''role'' = Some ''combobox''
         then AList.update ''isAutoComplete'' ''true'' attributes
         else attributes)"

text \<open>
  \<open>createDetectedField\<close> for the element at path \<open>p\<close>: no field (\<open>null\<close>), a field, or
  the exception that \<open>findLabelForElement\<close> raised.
\<close>

definition createDetectedField ::
  "(string \<Rightarrow> exn + node option) \<Rightarrow> node \<Rightarrow> path \<Rightarrow> node \<Rightarrow> exn + DetectedField option"
where
  "createDetectedField qs root p element =
     (if skipped element then Inr None
      else
        (let i = attributeOrEmpty element ''id'';
             name = attributeOrEmpty element ''name'';
             placeholder = attributeOrEmpty element ''placeholder''
         in if i = [] \<and> name = [] \<and> placeholder = [] then Inr None
            else
              (case findLabelForElement qs root p element of
                 Inl e \<Rightarrow> Inl e
               | Inr label \<Rightarrow>
                   Inr (Some \<lparr>f_id = i, f_name = name, f_type = determineFieldType element,
                              f_element = p, f_label = label, f_placeholder = Some placeholder,
                              f_attributes = gatherAttributes element\<rparr>))))"

text \<open>
  The loop of \<open>detectFieldsInElement\<close> over the elements found: an element whose
  processing raises is skipped (the error is logged), as is one that yields no field.
\<close>

fun collectFields ::
  "(string \<Rightarrow> exn + node option) \<Rightarrow> node \<Rightarrow> (path \<times> node) list \<Rightarrow> DetectedField list"
where
  "collectFields qs root [] = []"
| "collectFields qs root ((p, input) # inputs) =
     (case createDetectedField qs root p input of
        Inl e \<Rightarrow> collectFields qs root inputs
      | Inr None \<Rightarrow> collectFields qs root inputs
      | Inr (Some field) \<Rightarrow> field # collectFields qs root inputs)"

definition detectFieldsInElement ::
  "(string \<Rightarrow> exn + node option) \<Rightarrow> node \<Rightarrow> path \<Rightarrow> node \<Rightarrow> DetectedField list"
where
  "detectFieldsInElement qs root p element =
     collectFields qs root (querySelectorAll [''input'', ''select'', ''textarea''] p element)"

definition detectFieldsInForm ::
  "(string \<Rightarrow> exn + node option) \<Rightarrow> node \<Rightarrow> path \<Rightarrow> node \<Rightarrow> DetectedField list"
where
  "detectFieldsInForm qs root p form = detectFieldsInElement qs root p form"

text \<open>The fields pushed by the loop over \<open>document.querySelectorAll('form')\<close>.\<close>

definition formFields :: "(string \<Rightarrow> exn + node option) \<Rightarrow> node \<Rightarrow> DetectedField list" where
  "formFields qs root =
     concat (map (\<lambda>(p, form). detectFieldsInForm qs root p form)
                 (documentQuerySelectorAll [''form''] root))"

text \<open>
  \<open>detectFields\<close>.  The direct scan calls \<open>detectFieldsInElement(document.body)\<close>,
  whose first statement, \<open>element.querySelectorAll(...)\<close>, stands before the \<open>try\<close>:
  when \<open>document.body\<close> is \<open>null\<close> it raises a TypeError that nothing in
  \<open>detectFields\<close> catches.
\<close>

definition detectFields ::
  "(string \<Rightarrow> exn + node option) \<Rightarrow> Document \<Rightarrow> exn + DetectedField list"
where
  "detectFields qs d =
     (let detectedFields = formFields qs (d_root d)
      in if length detectedFields = 0
         then (case documentBody d of
                 None \<Rightarrow> Inl TypeError
               | Some (p, body) \<Rightarrow>
                   Inr (detectedFields @ detectFieldsInElement qs (d_root d) p body))
         else Inr detectedFields)"

subsection \<open>Fillable elements and example documents\<close>

text \<open>What the selector \<open>input, select, textarea\<close> matches.\<close>

definition fillable :: "node \<Rightarrow> bool" where
  "fillable n = (isElement n \<and> localName n \<in> {''input'', ''select'', ''textarea''})"

text \<open>The values of the type attribute that \<open>determineFieldType\<close> tells apart.\<close>

definition knownTypes :: "string list" where
  "knownTypes =
     [''text'', ''email'', ''password'', ''tel'', ''number'', ''date'', ''checkbox'', ''radio'',
      ''url'', ''search'', ''color'', ''range'', ''file'', ''month'', ''week'', ''time'',
      ''datetime-local'']"

text \<open>A document without label elements: \<open>querySelector\<close> finds none.\<close>

definition noLabels :: "string \<Rightarrow> exn + node option" where
  "noLabels selector = Inr None"

text \<open>
  A sign-up page.  Its form holds a hidden input, a disabled input, an email input, an
  input without id, name and placeholder, a textarea, a select, an input of an unknown
  type, and a submit input.  The form is at path 0, 0.
\<close>

definition signupDoc :: Document where
  "signupDoc =
     \<lparr>d_root =
        htmlTag ''html'' []
          [htmlTag ''body'' []
             [htmlTag ''form'' [(''id'', ''signup'')]
                [htmlTag ''input'' [(''type'', ''hidden''), (''name'', ''token'')] [],
                 htmlTag ''input'' [(''type'', ''email''), (''name'', ''old-email''), (''disabled'', [])] [],
                 htmlTag ''input'' [(''type'', ''email''), (''name'', ''email'')] [],
                 htmlTag ''input'' [(''type'', ''text'')] [],
                 htmlTag ''textarea'' [(''name'', ''comments'')] [Text ''Hello''],
                 htmlTag ''select'' [(''id'', ''country'')]
                   [htmlTag ''option'' [(''value'', ''us'')] [Text ''United States'']],
                 htmlTag ''input'' [(''type'', ''fancy''), (''placeholder'', ''Anything'')] [],
                 htmlTag ''input'' [(''type'', ''submit''), (''id'', ''go'')] []]]],
      d_body = Some [0]\<rparr>"

text \<open>
  A page whose only form, at path 0, 0, holds a hidden input and a button, with a
  search input outside the form, at path 0, 1.
\<close>

definition searchDoc :: Document where
  "searchDoc =
     \<lparr>d_root =
        htmlTag ''html'' []
          [htmlTag ''body'' []
             [htmlTag ''form'' [(''action'', ''/logout'')]
                [htmlTag ''input'' [(''type'', ''hidden''), (''name'', ''token'')] [],
                 htmlTag ''button'' [(''type'', ''submit'')] [Text ''Log out'']],
              htmlTag ''input'' [(''type'', ''search''), (''name'', ''q'')] []]],
      d_body = Some [0]\<rparr>"

text \<open>A page with an empty body.\<close>

definition emptyDoc :: Document where
  "emptyDoc = \<lparr>d_root = htmlTag ''html'' [] [htmlTag ''body'' [] []], d_body = Some [0]\<rparr>"

text \<open>
  An XHTML document that binds the HTML namespace to the prefix \<open>h\<close>: every element
  has the qualified name \<open>h:...\<close>, in the case it was written in.
\<close>

definition xhtmlDoc :: Document where
  "xhtmlDoc =
     \<lparr>d_root =
        Elem False (Some ''h'') ''html'' [(''xmlns:h'', ''http://www.w3.org/1999/xhtml'')]
          [Elem False (Some ''h'') ''body'' []
             [Elem False (Some ''h'') ''form'' []
                [Elem False (Some ''h'') ''input'' [(''type'', ''email''), (''name'', ''email'')] []]]],
      d_body = Some [0]\<rparr>"

text \<open>
  An SVG image opened as a document: no form, no input, and \<open>document.body\<close> is
  \<open>null\<close>.
\<close>

definition svgDoc :: Document where
  "svgDoc =
     \<lparr>d_root =
        Elem False None ''svg'' [(''xmlns'', ''http://www.w3.org/2000/svg'')]
          [Elem False None ''text'' [(''x'', ''10''), (''y'', ''20'')] [Text ''Hello'']],
      d_body = None\<rparr>"

section \<open>Elements at fill time\<close>

text \<open>
  The properties of an element that the filler reads and writes.  One record serves
  inputs, textareas and selects: the filler casts \<open>field.element\<close> to the element
  class that belongs to the field's type, and the model assumes that the element is of
  that class, as it is for every field that detection produced.  Assigning a property
  stores the value, and \<open>e_value\<close> is the text of an input or textarea: the value
  that a browser derives for a select from its selected option is not tracked, the code
  never reads it.  What a browser does to a stored value afterwards (sanitising the
  value of a number or date input, unchecking the other radio buttons of a group) and
  what page listeners do when an event is dispatched are outside the model.
\<close>

record HTMLOption =
  o_value :: string
  o_text :: string

record HTMLElement =
  e_disabled :: bool
  e_readOnly :: bool
  e_value :: string
  e_checked :: bool
  e_options :: "HTMLOption list"
  e_selectedIndex :: int

text \<open>
  The page: the properties of every element, by path, and the events dispatched so far,
  oldest first, each with the element it was dispatched on.
\<close>

record Page =
  p_elements :: "path \<Rightarrow> HTMLElement"
  p_events :: "(path \<times> string) list"

section \<open>FormFiller: applying a value\<close>

text \<open>
  The mapping's value is cast, not converted (\<open>value as string\<close>), so each operation
  receives whatever the mapping holds.  Assigning it to \<open>input.value\<close> converts it to
  a string: a boolean to \<open>true\<close> or \<open>false\<close>, an array to its elements joined by commas.
\<close>

definition valueToString :: "MappingValue \<Rightarrow> string" where
  "valueToString v =
     (case v of
        VString s \<Rightarrow> s
      | VBoolean b \<Rightarrow> (if b then ''true'' else ''false'')
      | VArray xs \<Rightarrow> join '','' xs)"

text \<open>
  Each operation on an element returns whether the field counts as filled, the element
  afterwards, and the events triggered on it, in order.
\<close>

definition fillInputField :: "HTMLElement \<Rightarrow> MappingValue \<Rightarrow> bool \<times> HTMLElement \<times> string list" where
  "fillInputField input v =
     (if e_readOnly input \<or> e_disabled input then (False, input, [])
      else (True, input\<lparr>e_value := valueToString v\<rparr>, [''input'', ''change'']))"

definition fillTextareaField :: "HTMLElement \<Rightarrow> MappingValue \<Rightarrow> bool \<times> HTMLElement \<times> string list" where
  "fillTextareaField textarea v =
     (if e_readOnly textarea \<or> e_disabled textarea then (False, textarea, [])
      else (True, textarea\<lparr>e_value := valueToString v\<rparr>, [''input'', ''change'']))"

text \<open>
  \<open>possibleValues = Array.isArray(value) ? value : [value]\<close>: its elements are strings,
  or the one boolean of a boolean mapping value, on which \<open>val.toLowerCase()\<close> raises a
  TypeError.
\<close>

datatype jsval = JString string | JBoolean bool

definition possibleValues :: "MappingValue \<Rightarrow> jsval list" where
  "possibleValues v =
     (case v of
        VArray xs \<Rightarrow> map JString xs
      | VString s \<Rightarrow> [JString s]
      | VBoolean b \<Rightarrow> [JBoolean b])"

definition valToLowerCase :: "jsval \<Rightarrow> exn + string" where
  "valToLowerCase v = (case v of JString s \<Rightarrow> Inr (toLowerCase s) | JBoolean b \<Rightarrow> Inl TypeError)"

text \<open>
  The inner loop \<open>for (const val of possibleValues)\<close> of both passes: whether some
  value, lowercased, passes the test of the option at hand, stopping at the first.
\<close>

fun matchAnyValue :: "(string \<Rightarrow> bool) \<Rightarrow> jsval list \<Rightarrow> exn + bool" where
  "matchAnyValue test [] = Inr False"
| "matchAnyValue test (val # vals) =
     (case valToLowerCase val of
        Inl e \<Rightarrow> Inl e
      | Inr checkValue \<Rightarrow> if test checkValue then Inr True else matchAnyValue test vals)"

text \<open>
  The outer loop over the options from index \<open>i\<close> on: the index of the first option
  whose lowercased value or text passes the comparison with some value.
\<close>

fun findOption ::
  "(string \<Rightarrow> string \<Rightarrow> bool) \<Rightarrow> jsval list \<Rightarrow> HTMLOption list \<Rightarrow> nat \<Rightarrow> exn + nat option"
where
  "findOption cmp vals [] i = Inr None"
| "findOption cmp vals (option # options) i =
     (case matchAnyValue
             (\<lambda>checkValue. cmp (toLowerCase (o_value option)) checkValue
                           \<or> cmp (toLowerCase (o_text option)) checkValue) vals of
        Inl e \<Rightarrow> Inl e
      | Inr matched \<Rightarrow> if matched then Inr (Some i) else findOption cmp vals options (Suc i))"

definition exactPass :: "jsval list \<Rightarrow> HTMLOption list \<Rightarrow> exn + nat option" where
  "exactPass vals options = findOption (\<lambda>optionString checkValue. optionString = checkValue) vals options 0"

definition substringPass :: "jsval list \<Rightarrow> HTMLOption list \<Rightarrow> exn + nat option" where
  "substringPass vals options = findOption str_includes vals options 0"

definition isPlaceholder :: "HTMLOption \<Rightarrow> bool" where
  "isPlaceholder firstOption =
     (o_value firstOption = []
      \<or> str_includes (toLowerCase (o_text firstOption)) ''select''
      \<or> str_includes (toLowerCase (o_text firstOption)) ''choose'')"

text \<open>
  \<open>selectedIndex\<close> is -1 when no option is selected.  An exception leaves the select
  as it was: the only statement that can raise comes before any assignment.
\<close>

definition fillSelectField ::
  "HTMLElement \<Rightarrow> MappingValue \<Rightarrow> exn + (bool \<times> HTMLElement \<times> string list)"
where
  "fillSelectField select v =
     (if e_disabled select then Inr (False, select, [])
      else
        (case exactPass (possibleValues v) (e_options select) of
           Inl e \<Rightarrow> Inl e
         | Inr (Some i) \<Rightarrow> Inr (True, select\<lparr>e_selectedIndex := int i\<rparr>, [''change''])
         | Inr None \<Rightarrow>
             (case (if length (e_options select) > 0
                    then substringPass (possibleValues v) (e_options select)
                    else Inr None) of
                Inl e \<Rightarrow> Inl e
              | Inr (Some i) \<Rightarrow> Inr (True, select\<lparr>e_selectedIndex := int i\<rparr>, [''change''])
              | Inr None \<Rightarrow>
                  if e_selectedIndex select \<le> 0 \<and> length (e_options select) > 1
                  then Inr (True,
                            select\<lparr>e_selectedIndex :=
                              (if isPlaceholder (e_options select ! 0) \<and> length (e_options select) > 1
                               then 1 else 0)\<rparr>,
                            [''change''])
                  else Inr (False, select, []))))"

text \<open>
  \<open>input.checked !== value\<close> is a strict comparison: a value that is not a boolean
  differs from every checked state.  \<open>input.checked = value\<close> stores the truthiness of
  the value: a string is truthy when it is not empty, an array always.
\<close>

definition checkedDiffers :: "bool \<Rightarrow> MappingValue \<Rightarrow> bool" where
  "checkedDiffers c v = (case v of VBoolean b \<Rightarrow> c \<noteq> b | _ \<Rightarrow> True)"

definition valueToBoolean :: "MappingValue \<Rightarrow> bool" where
  "valueToBoolean v = (case v of VBoolean b \<Rightarrow> b | VString s \<Rightarrow> s \<noteq> [] | VArray xs \<Rightarrow> True)"

definition fillToggleField :: "HTMLElement \<Rightarrow> MappingValue \<Rightarrow> bool \<times> HTMLElement \<times> string list" where
  "fillToggleField input v =
     (if e_disabled input then (False, input, [])
      else if checkedDiffers (e_checked input) v
      then (True, input\<lparr>e_checked := valueToBoolean v\<rparr>, [''click'', ''change''])
      else (True, input, []))"

section \<open>FormFiller.fillField and FormFiller.fillForms\<close>

text \<open>Writing the outcome of an operation on the element at a path back to the page.\<close>

definition applyFill :: "Page \<Rightarrow> path \<Rightarrow> bool \<times> HTMLElement \<times> string list \<Rightarrow> bool \<times> Page" where
  "applyFill pg p r =
     (case r of (filled, el, evs) \<Rightarrow>
        (filled, pg\<lparr>p_elements := (p_elements pg)(p := el),
                     p_events := p_events pg @ map (Pair p) evs\<rparr>))"

text \<open>The body of the \<open>try\<close> block of \<open>fillField\<close>.  Calls of the logger are left out.\<close>

definition fillField_try :: "FieldMapping list \<Rightarrow> Page \<Rightarrow> DetectedField \<Rightarrow> exn + (bool \<times> Page)" where
  "fillField_try ms pg field =
     (case findBestMapping ms field of
        None \<Rightarrow> Inr (False, pg)
      | Some mapping \<Rightarrow>
          (let v = m_value mapping;
               p = f_element field;
               el = p_elements pg p;
               asInput = Inr (applyFill pg p (fillInputField el v));
               asToggle = Inr (applyFill pg p (fillToggleField el v))
           in case f_type field of
                TEXT \<Rightarrow> asInput
              | EMAIL \<Rightarrow> asInput
              | PASSWORD \<Rightarrow> asInput
              | TELEPHONE \<Rightarrow> asInput
              | NUMBER \<Rightarrow> asInput
              | URL \<Rightarrow> asInput
              | SEARCH \<Rightarrow> asInput
              | DATE \<Rightarrow> asInput
              | MONTH \<Rightarrow> asInput
              | WEEK \<Rightarrow> asInput
              | TIME \<Rightarrow> asInput
              | DATETIME \<Rightarrow> asInput
              | TEXTAREA \<Rightarrow> Inr (applyFill pg p (fillTextareaField el v))
              | SELECT \<Rightarrow>
                  (case fillSelectField el v of
                     Inl e \<Rightarrow> Inl e
                   | Inr r \<Rightarrow> Inr (applyFill pg p r))
              | CHECKBOX \<Rightarrow> asToggle
              | RADIO \<Rightarrow> asToggle
              | _ \<Rightarrow> Inr (False, pg)))"

text \<open>\<open>try { ... } catch (error) { logger.error(...); return false; }\<close>\<close>

definition fillField :: "FieldMapping list \<Rightarrow> Page \<Rightarrow> DetectedField \<Rightarrow> exn + (bool \<times> Page)" where
  "fillField ms pg field =
     (case fillField_try ms pg field of
        Inl error \<Rightarrow> Inr (False, pg)
      | Inr r \<Rightarrow> Inr r)"

text \<open>
  The loop of \<open>fillForms\<close> over the detected fields, with the running \<open>filledCount\<close>.
  An exception that left \<open>fillField\<close> would leave the loop and \<open>fillForms\<close>.
\<close>

fun fillFields ::
  "FieldMapping list \<Rightarrow> DetectedField list \<Rightarrow> Page \<Rightarrow> nat \<Rightarrow> exn + (nat \<times> Page)"
where
  "fillFields ms [] pg filledCount = Inr (filledCount, pg)"
| "fillFields ms (field # detectedFields) pg filledCount =
     (case fillField ms pg field of
        Inl e \<Rightarrow> Inl e
      | Inr (filled, pg') \<Rightarrow>
          fillFields ms detectedFields pg' (if filled then filledCount + 1 else filledCount))"

text \<open>
  \<open>fillForms\<close>: detect the fields of the document, then run the loop from count 0.
  The call of \<open>detectFields\<close> is outside every \<open>try\<close>, so an exception of the
  detection leaves \<open>fillForms\<close>.
\<close>

definition fillForms ::
  "(string \<Rightarrow> exn + node option) \<Rightarrow> Document \<Rightarrow> FieldMapping list \<Rightarrow> Page
     \<Rightarrow> exn + (nat \<times> Page)"
where
  "fillForms qs d ms pg =
     (case detectFields qs d of
        Inl e \<Rightarrow> Inl e
      | Inr detectedFields \<Rightarrow> fillFields ms detectedFields pg 0)"

subsection \<open>What the loop of fillForms counts\<close>

text \<open>
  For one field on a given page: whether the body of \<open>fillField\<close> ran to its end and
  reported the field as filled, and the page it leaves.
\<close>

definition fieldFilled :: "FieldMapping list \<Rightarrow> Page \<Rightarrow> DetectedField \<Rightarrow> bool" where
  "fieldFilled ms pg field =
     (case fillField_try ms pg field of Inl e \<Rightarrow> False | Inr (filled, pg') \<Rightarrow> filled)"

definition pageAfter :: "FieldMapping list \<Rightarrow> Page \<Rightarrow> DetectedField \<Rightarrow> Page" where
  "pageAfter ms pg field =
     (case fillField_try ms pg field of Inl e \<Rightarrow> pg | Inr (filled, pg') \<Rightarrow> pg')"

fun countFilled :: "FieldMapping list \<Rightarrow> DetectedField list \<Rightarrow> Page \<Rightarrow> nat" where
  "countFilled ms [] pg = 0"
| "countFilled ms (field # rest) pg =
     (if fieldFilled ms pg field then 1 else 0) + countFilled ms rest (pageAfter ms pg field)"

fun pageAfterAll :: "FieldMapping list \<Rightarrow> DetectedField list \<Rightarrow> Page \<Rightarrow> Page" where
  "pageAfterAll ms [] pg = pg"
| "pageAfterAll ms (field # rest) pg = pageAfterAll ms rest (pageAfter ms pg field)"

subsection \<open>Example elements\<close>

definition c4_options :: "HTMLOption list" where
  "c4_options =
     [\<lparr>o_value = [], o_text = []\<rparr>,
      \<lparr>o_value = ''Select...'', o_text = ''Select...''\<rparr>,
      \<lparr>o_value = ''male'', o_text = ''male''\<rparr>,
      \<lparr>o_value = ''female'', o_text = ''female''\<rparr>]"

definition c4_select :: HTMLElement where
  "c4_select = \<lparr>e_disabled = False, e_readOnly = False, e_value = [], e_checked = False,
     e_options = c4_options, e_selectedIndex = 0\<rparr>"

text \<open>A drop-down whose first option is selected, as a browser shows it at first.\<close>

definition c5_select :: HTMLElement where
  "c5_select = \<lparr>e_disabled = False, e_readOnly = False, e_value = [], e_checked = False,
     e_options = [\<lparr>o_value = ''us'', o_text = ''United States''\<rparr>,
                  \<lparr>o_value = ''ca'', o_text = ''Canada''\<rparr>],
     e_selectedIndex = 0\<rparr>"

text \<open>A list box in which nothing is selected.\<close>

definition c5_listbox :: HTMLElement where
  "c5_listbox = \<lparr>e_disabled = False, e_readOnly = False, e_value = [], e_checked = False,
     e_options = [\<lparr>o_value = ''0'', o_text = ''Choose a country''\<rparr>,
                  \<lparr>o_value = ''us'', o_text = ''United States''\<rparr>,
                  \<lparr>o_value = ''ca'', o_text = ''Canada''\<rparr>],
     e_selectedIndex = - 1\<rparr>"

definition c7_checkbox :: HTMLElement where
  "c7_checkbox = \<lparr>e_disabled = False, e_readOnly = False, e_value = ''on'', e_checked = True,
     e_options = [], e_selectedIndex = - 1\<rparr>"

text \<open>
  A page with a select and a text input, a mapping with a boolean value bound to the
  select by id, and a mapping bound to the input by name.
\<close>

definition c6_textInput :: HTMLElement where
  "c6_textInput = \<lparr>e_disabled = False, e_readOnly = False, e_value = [], e_checked = False,
     e_options = [], e_selectedIndex = - 1\<rparr>"

definition c6_page :: Page where
  "c6_page = \<lparr>p_elements = (\<lambda>p. if p = [0, 0] then c5_select else c6_textInput), p_events = []\<rparr>"

definition c6_selectField :: DetectedField where
  "c6_selectField = \<lparr>f_id = ''country'', f_name = ''country'', f_type = SELECT, f_element = [0, 0],
     f_label = Some ''Country'', f_placeholder = Some [],
     f_attributes = [(''id'', ''country''), (''name'', ''country'')]\<rparr>"

definition c6_textField :: DetectedField where
  "c6_textField = \<lparr>f_id = [], f_name = ''firstName'', f_type = TEXT, f_element = [0, 1],
     f_label = None, f_placeholder = Some [],
     f_attributes = [(''name'', ''firstName''), (''type'', ''text'')]\<rparr>"

definition c6_mappings :: "FieldMapping list" where
  "c6_mappings =
     [\<lparr>m_id = Some ''country'', m_name = None, m_type = None, m_label = None,
       m_placeholder = None, m_keywords = None, m_value = VBoolean True\<rparr>,
      \<lparr>m_id = None, m_name = Some ''firstName'', m_type = None, m_label = None,
       m_placeholder = None, m_keywords = Some [''first name'', ''firstname''],
       m_value = VString ''John''\<rparr>]"

text \<open>The page after the text input was filled with \<open>John\<close>.\<close>

definition c6_pageAfter :: Page where
  "c6_pageAfter =
     c6_page\<lparr>p_elements := (p_elements c6_page)([0, 1] := c6_textInput\<lparr>e_value := ''John''\<rparr>),
              p_events := [([0, 1], ''input''), ([0, 1], ''change'')]\<rparr>"

definition c7_field :: DetectedField where
  "c7_field = \<lparr>f_id = ''terms'', f_name = ''terms'', f_type = CHECKBOX, f_element = [2],
     f_label = Some ''I agree to the terms'', f_placeholder = Some [],
     f_attributes = [(''type'', ''checkbox''), (''id'', ''terms''), (''name'', ''terms'')]\<rparr>"

definition c7_mapping :: FieldMapping where
  "c7_mapping = \<lparr>m_id = None, m_name = None, m_type = Some CHECKBOX, m_label = None,
     m_placeholder = None, m_keywords = Some [''terms'', ''agree'', ''consent'', ''accept''],
     m_value = VBoolean True\<rparr>"

definition c7_page :: Page where
  "c7_page = \<lparr>p_elements = (\<lambda>p. c7_checkbox), p_events = []\<rparr>"

section \<open>The type and keyword tier\<close>

lemma inner_fold_matchPoints:
  "fold (\<lambda>fieldKeyword score.
           if str_includes fieldKeyword k
           then (if fieldKeyword = k then score + 1 + 1 else score + 1)
           else score) bag (a::nat)
   = a + sum_list (map (\<lambda>e. matchPoints e k) bag)"
  by (induction bag arbitrary: a) (simp_all add: matchPoints_def)

lemma keywordScore_sum:
  "keywordScore bag kws = (\<Sum>k\<leftarrow>kws. \<Sum>e\<leftarrow>bag. matchPoints e (toLowerCase k))"
proof -
  have "fold (\<lambda>keyword score.
             fold (\<lambda>fieldKeyword score.
                     if str_includes fieldKeyword (toLowerCase keyword)
                     then (if fieldKeyword = toLowerCase keyword then score + 1 + 1 else score + 1)
                     else score)
                  bag score) kws (a::nat)
        = a + (\<Sum>k\<leftarrow>kws. \<Sum>e\<leftarrow>bag. matchPoints e (toLowerCase k))" for a
    by (induction kws arbitrary: a) (simp_all add: inner_fold_matchPoints)
  then show ?thesis by (simp add: keywordScore_def)
qed

lemma bestMatchLoop_keep:
  "\<forall>m\<in>set ms. kwScore sc m \<le> s \<Longrightarrow> bestMatchLoop sc ms (b, s) = (b, s)"
  by (induction ms) (auto simp: kwScore_def Let_def split: option.splits)

lemma bestMatchLoop_replace:
  "\<exists>m\<in>set ms. s < kwScore sc m \<Longrightarrow>
   \<exists>pre M post. ms = pre @ M # post \<and> bestMatchLoop sc ms (b, s) = (Some M, kwScore sc M)
      \<and> s < kwScore sc M
      \<and> (\<forall>m\<in>set pre. kwScore sc m < kwScore sc M)
      \<and> (\<forall>m\<in>set post. kwScore sc m \<le> kwScore sc M)"
proof (induction ms arbitrary: b s)
  case Nil
  then show ?case by simp
next
  case (Cons x ms)
  show ?case
  proof (cases "s < kwScore sc x")
    case True
    then have step: "bestMatchLoop sc (x # ms) (b, s) = bestMatchLoop sc ms (Some x, kwScore sc x)"
      by (auto simp: kwScore_def Let_def split: option.splits)
    show ?thesis
    proof (cases "\<exists>m\<in>set ms. kwScore sc x < kwScore sc m")
      case False
      then have le: "\<forall>m\<in>set ms. kwScore sc m \<le> kwScore sc x" by auto
      then have "bestMatchLoop sc ms (Some x, kwScore sc x) = (Some x, kwScore sc x)"
        by (rule bestMatchLoop_keep)
      with step True le
      have "x # ms = [] @ x # ms \<and> bestMatchLoop sc (x # ms) (b, s) = (Some x, kwScore sc x)
          \<and> s < kwScore sc x \<and> (\<forall>m\<in>set []. kwScore sc m < kwScore sc x)
          \<and> (\<forall>m\<in>set ms. kwScore sc m \<le> kwScore sc x)"
        by simp
      then show ?thesis by blast
    next
      case ex: True
      from Cons.IH [OF ex, of "Some x"] obtain pre M post where
        h: "ms = pre @ M # post"
           "bestMatchLoop sc ms (Some x, kwScore sc x) = (Some M, kwScore sc M)"
           "kwScore sc x < kwScore sc M"
           "\<forall>m\<in>set pre. kwScore sc m < kwScore sc M"
           "\<forall>m\<in>set post. kwScore sc m \<le> kwScore sc M"
        by blast
      from h step True
      have "x # ms = (x # pre) @ M # post \<and> bestMatchLoop sc (x # ms) (b, s) = (Some M, kwScore sc M)
          \<and> s < kwScore sc M \<and> (\<forall>m\<in>set (x # pre). kwScore sc m < kwScore sc M)
          \<and> (\<forall>m\<in>set post. kwScore sc m \<le> kwScore sc M)"
        by simp
      then show ?thesis by blast
    qed
  next
    case False
    then have step: "bestMatchLoop sc (x # ms) (b, s) = bestMatchLoop sc ms (b, s)"
      by (auto simp: kwScore_def Let_def split: option.splits)
    from False Cons.prems have ex: "\<exists>m\<in>set ms. s < kwScore sc m" by auto
    from Cons.IH [OF ex, of b] obtain pre M post where
      h: "ms = pre @ M # post"
         "bestMatchLoop sc ms (b, s) = (Some M, kwScore sc M)"
         "s < kwScore sc M"
         "\<forall>m\<in>set pre. kwScore sc m < kwScore sc M"
         "\<forall>m\<in>set post. kwScore sc m \<le> kwScore sc M"
      by blast
    from h step False
    have "x # ms = (x # pre) @ M # post \<and> bestMatchLoop sc (x # ms) (b, s) = (Some M, kwScore sc M)
        \<and> s < kwScore sc M \<and> (\<forall>m\<in>set (x # pre). kwScore sc m < kwScore sc M)
        \<and> (\<forall>m\<in>set post. kwScore sc m \<le> kwScore sc M)"
      by auto
    then show ?thesis by blast
  qed
qed

lemma typeKeywordMatch_None:
  assumes "typeKeywordMatch ms f = None"
  shows "\<forall>m\<in>set (typeMatches ms f). mappingScore f m = 0"
proof (rule ccontr)
  assume "\<not> (\<forall>m\<in>set (typeMatches ms f). mappingScore f m = 0)"
  then have ex: "\<exists>m\<in>set (typeMatches ms f). 0 < kwScore (keywordScore (fieldKeywords f)) m"
    by (auto simp: mappingScore_def)
  then have ne: "typeMatches ms f \<noteq> []" by auto
  from bestMatchLoop_replace [OF ex, of None] obtain M where
    "bestMatchLoop (keywordScore (fieldKeywords f)) (typeMatches ms f) (None, 0)
       = (Some M, kwScore (keywordScore (fieldKeywords f)) M)"
    by blast
  with ne have "typeKeywordMatch ms f = Some M"
    by (simp add: typeKeywordMatch_def)
  with assms show False by simp
qed

lemma typeKeywordMatch_Some:
  assumes "typeKeywordMatch ms f = Some M"
  shows "0 < mappingScore f M \<and>
         (\<exists>pre post. typeMatches ms f = pre @ M # post
            \<and> (\<forall>m\<in>set pre. mappingScore f m < mappingScore f M)
            \<and> (\<forall>m\<in>set post. mappingScore f m \<le> mappingScore f M))"
proof -
  let ?sc = "keywordScore (fieldKeywords f)"
  from assms have ne: "typeMatches ms f \<noteq> []"
    and r: "fst (bestMatchLoop ?sc (typeMatches ms f) (None, 0)) = Some M"
    by (auto simp: typeKeywordMatch_def split: if_splits)
  have ex: "\<exists>m\<in>set (typeMatches ms f). 0 < kwScore ?sc m"
  proof (rule ccontr)
    assume "\<not> ?thesis"
    then have "\<forall>m\<in>set (typeMatches ms f). kwScore ?sc m \<le> 0" by auto
    then have "bestMatchLoop ?sc (typeMatches ms f) (None, 0) = (None, 0)"
      by (rule bestMatchLoop_keep)
    with r show False by simp
  qed
  from bestMatchLoop_replace [OF ex, of None] obtain pre M' post where
    h: "typeMatches ms f = pre @ M' # post"
       "bestMatchLoop ?sc (typeMatches ms f) (None, 0) = (Some M', kwScore ?sc M')"
       "0 < kwScore ?sc M'"
       "\<forall>m\<in>set pre. kwScore ?sc m < kwScore ?sc M'"
       "\<forall>m\<in>set post. kwScore ?sc m \<le> kwScore ?sc M'"
    by blast
  from h(2) r have "M' = M" by simp
  with h show ?thesis
    unfolding mappingScore_def by blast
qed

lemma findBestMapping_typeKeywordMatch:
  "idMatch ms f = None \<Longrightarrow> nameMatch ms f = None \<Longrightarrow> typeKeywordMatch ms f = Some M
   \<Longrightarrow> findBestMapping ms f = Some M"
  by (simp add: findBestMapping_def)

text \<open>
  C1, as the code has it.  The score of a mapping in the type and keyword tier is the
  sum, over every keyword of the mapping and every entry of the field's array, of 1
  when the entry includes the lowercased keyword and of 2 when the entry equals it: a
  keyword is counted once for each entry that contains it.  The tier returns the first
  of the candidate mappings with the highest score, and that score is positive; it
  returns nothing exactly when every candidate scores 0.  When neither the id nor the
  name tier finds a mapping, the mapping this tier returns is the resolver's result.
\<close>

theorem type_keyword_tier:
  "keywordScore bag kws = (\<Sum>k\<leftarrow>kws. \<Sum>e\<leftarrow>bag. matchPoints e (toLowerCase k))
   \<and> (case typeKeywordMatch ms f of
        None \<Rightarrow> \<forall>m\<in>set (typeMatches ms f). mappingScore f m = 0
      | Some M \<Rightarrow>
          0 < mappingScore f M
          \<and> (\<exists>pre post. typeMatches ms f = pre @ M # post
                \<and> (\<forall>m\<in>set pre. mappingScore f m < mappingScore f M)
                \<and> (\<forall>m\<in>set post. mappingScore f m \<le> mappingScore f M))
          \<and> (idMatch ms f = None \<and> nameMatch ms f = None \<longrightarrow> findBestMapping ms f = Some M))"
proof (cases "typeKeywordMatch ms f")
  case None
  then show ?thesis
    using keywordScore_sum [of bag kws] typeKeywordMatch_None [OF None] by simp
next
  case (Some M)
  then show ?thesis
    using keywordScore_sum [of bag kws] typeKeywordMatch_Some [OF Some]
      findBestMapping_typeKeywordMatch [of ms f M]
    by simp
qed

text \<open>
  At the example field the array is \<open>contact email\<close>, \<open>email\<close>, \<open>email\<close>.  The
  keyword \<open>email\<close> scores 1 + 2 + 2 = 5, the three keywords of the first mapping score
  1 each, and the second mapping is returned.  With the label \<open>E-mail\<close> the first
  mapping alone scores 0 and the tier returns nothing.
\<close>

theorem type_keyword_tier_witness:
  "typeKeywordMatch [c1_M1, c1_M2] c1_field = Some c1_M2
   \<and> idMatch [c1_M1, c1_M2] c1_field = None \<and> nameMatch [c1_M1, c1_M2] c1_field = None
   \<and> typeMatches [c1_M1, c1_M2] c1_field = [c1_M1] @ c1_M2 # []
   \<and> mappingScore c1_field c1_M1 = 3 \<and> mappingScore c1_field c1_M2 = 5
   \<and> findBestMapping [c1_M1, c1_M2] c1_field = Some c1_M2
   \<and> typeKeywordMatch [c1_M1] (c1_field\<lparr>f_label := Some ''E-mail''\<rparr>) = None
   \<and> typeMatches [c1_M1] (c1_field\<lparr>f_label := Some ''E-mail''\<rparr>) = [c1_M1]
   \<and> mappingScore (c1_field\<lparr>f_label := Some ''E-mail''\<rparr>) c1_M1 = 0"
proof -
  have t: "typeKeywordMatch [c1_M1, c1_M2] c1_field = Some c1_M2"
    by code_simp
  have i: "idMatch [c1_M1, c1_M2] c1_field = None"
    by code_simp
  have n: "nameMatch [c1_M1, c1_M2] c1_field = None"
    by code_simp
  have c: "typeMatches [c1_M1, c1_M2] c1_field = [c1_M1] @ c1_M2 # []"
    by code_simp
  have s1: "mappingScore c1_field c1_M1 = 3"
    by code_simp
  have s2: "mappingScore c1_field c1_M2 = 5"
    by code_simp
  have t0: "typeKeywordMatch [c1_M1] (c1_field\<lparr>f_label := Some ''E-mail''\<rparr>) = None"
    by code_simp
  have c0: "typeMatches [c1_M1] (c1_field\<lparr>f_label := Some ''E-mail''\<rparr>) = [c1_M1]"
    by code_simp
  from type_keyword_tier [of "[]" "[]" "[c1_M1, c1_M2]" c1_field] t i n
  have 1: "findBestMapping [c1_M1, c1_M2] c1_field = Some c1_M2"
    by simp
  from type_keyword_tier [of "[]" "[]" "[c1_M1]" "c1_field\<lparr>f_label := Some ''E-mail''\<rparr>"] t0 c0
  have 2: "mappingScore (c1_field\<lparr>f_label := Some ''E-mail''\<rparr>) c1_M1 = 0"
    by simp
  from t i n c s1 s2 1 t0 c0 2 show ?thesis by simp
qed

text \<open>
  The claim as worded fails at the same field: it gives the keyword \<open>email\<close> 2 points
  and ranks the first mapping (3 points) above the second, while the code gives 5
  points and returns the second mapping.
\<close>

theorem keyword_score_counterexample:
  "keywordScore (fieldKeywords c1_field) [''email''] = 5
   \<and> spec_keywordScore (fieldKeywords c1_field) [''email''] = 2
   \<and> spec_keywordScore (fieldKeywords c1_field) [''contact'', ''con'', ''tact''] = 3
   \<and> findBestMapping [c1_M1, c1_M2] c1_field = Some c1_M2"
  by code_simp

section \<open>Identity beats fuzzy matching\<close>

lemma find_first_split:
  assumes "x \<in> set xs" and "P x"
  shows "\<exists>pre y post. xs = pre @ y # post \<and> P y \<and> (\<forall>z\<in>set pre. \<not> P z) \<and> find P xs = Some y"
  using assms
proof (induction xs)
  case Nil
  then show ?case by simp
next
  case (Cons a xs)
  show ?case
  proof (cases "P a")
    case True
    then have "a # xs = [] @ a # xs \<and> P a \<and> (\<forall>z\<in>set []. \<not> P z) \<and> find P (a # xs) = Some a"
      by simp
    then show ?thesis by blast
  next
    case False
    with Cons.prems have "x \<in> set xs" by auto
    with Cons.IH Cons.prems obtain pre y post where
      h: "xs = pre @ y # post" "P y" "\<forall>z\<in>set pre. \<not> P z" "find P xs = Some y"
      by blast
    from h False have "a # xs = (a # pre) @ y # post \<and> P y \<and> (\<forall>z\<in>set (a # pre). \<not> P z)
        \<and> find P (a # xs) = Some y"
      by simp
    then show ?thesis by blast
  qed
qed

lemma findBestMapping_idMatch:
  "idMatch ms f = Some m \<Longrightarrow> findBestMapping ms f = Some m"
  by (simp add: findBestMapping_def)

text \<open>
  C2.  Let the field have a non-empty id and let the table contain a mapping \<open>A\<close> whose
  id is the field's id.  Then the resolver returns the first mapping of the table, in
  configured order, whose id is the field's id, whatever else the table holds and
  wherever it stands; when \<open>A\<close> is the only mapping with that id, the resolver returns
  \<open>A\<close>, before or after any mapping that matches by keywords.
\<close>

theorem id_match_wins:
  assumes "f_id f \<noteq> []" and "A \<in> set ms" and "m_id A = Some (f_id f)"
  shows "(\<exists>pre M post. ms = pre @ M # post \<and> m_id M = Some (f_id f)
            \<and> (\<forall>m\<in>set pre. m_id m \<noteq> Some (f_id f))
            \<and> findBestMapping ms f = Some M)
         \<and> ((\<forall>m\<in>set ms. m_id m = Some (f_id f) \<longrightarrow> m = A) \<longrightarrow> findBestMapping ms f = Some A)"
proof -
  from find_first_split [of A ms "\<lambda>m. m_id m = Some (f_id f)"] assms
  obtain pre M post where
    h: "ms = pre @ M # post" "m_id M = Some (f_id f)" "\<forall>m\<in>set pre. m_id m \<noteq> Some (f_id f)"
       "find (\<lambda>m. m_id m = Some (f_id f)) ms = Some M"
    by blast
  from h(4) assms(1) have "idMatch ms f = Some M"
    by (simp add: idMatch_def)
  then have r: "findBestMapping ms f = Some M"
    by (rule findBestMapping_idMatch)
  have "M \<in> set ms" using h(1) by simp
  with h(2) have "(\<forall>m\<in>set ms. m_id m = Some (f_id f) \<longrightarrow> m = A) \<longrightarrow> M = A"
    by blast
  with r h show ?thesis by blast
qed

text \<open>
  At a concrete field: alone, \<open>c2_B\<close> matches the field by its type and keywords; with
  \<open>c2_A\<close> in the table, in either order, \<open>c2_A\<close> is returned.
\<close>

theorem id_match_wins_witness:
  "findBestMapping [c2_B] c2_field = Some c2_B
   \<and> findBestMapping [c2_A, c2_B] c2_field = Some c2_A
   \<and> findBestMapping [c2_B, c2_A] c2_field = Some c2_A"
proof -
  have 1: "f_id c2_field \<noteq> []"
    by (simp add: c2_field_def)
  have 2: "m_id c2_A = Some (f_id c2_field)"
    by (simp add: c2_field_def c2_A_def)
  have 3: "m_id c2_B \<noteq> Some (f_id c2_field)"
    by (simp add: c2_field_def c2_B_def)
  have ab: "findBestMapping [c2_A, c2_B] c2_field = Some c2_A"
    using id_match_wins [OF 1 _ 2, of "[c2_A, c2_B]"] 2 3 by auto
  have ba: "findBestMapping [c2_B, c2_A] c2_field = Some c2_A"
    using id_match_wins [OF 1 _ 2, of "[c2_B, c2_A]"] 2 3 by auto
  have b: "findBestMapping [c2_B] c2_field = Some c2_B"
    by code_simp
  from b ab ba show ?thesis by simp
qed

section \<open>Filling a select\<close>

lemma fillSelectField_found_exact:
  "\<not> e_disabled select \<Longrightarrow> exactPass (possibleValues v) (e_options select) = Inr (Some i)
   \<Longrightarrow> fillSelectField select v = Inr (True, select\<lparr>e_selectedIndex := int i\<rparr>, [''change''])"
  by (simp add: fillSelectField_def)

lemma fillSelectField_found_substring:
  "\<not> e_disabled select \<Longrightarrow> exactPass (possibleValues v) (e_options select) = Inr None
   \<Longrightarrow> substringPass (possibleValues v) (e_options select) = Inr (Some i)
   \<Longrightarrow> fillSelectField select v = Inr (True, select\<lparr>e_selectedIndex := int i\<rparr>, [''change''])"
  by (cases "e_options select") (simp_all add: fillSelectField_def substringPass_def)

lemma fillSelectField_no_match:
  "\<not> e_disabled select \<Longrightarrow> exactPass (possibleValues v) (e_options select) = Inr None
   \<Longrightarrow> substringPass (possibleValues v) (e_options select) = Inr None
   \<Longrightarrow> fillSelectField select v =
       (if e_selectedIndex select \<le> 0 \<and> 1 < length (e_options select)
        then Inr (True,
                  select\<lparr>e_selectedIndex := (if isPlaceholder (e_options select ! 0) then 1 else 0)\<rparr>,
                  [''change''])
        else Inr (False, select, []))"
  by (simp add: fillSelectField_def)

text \<open>
  C5, as the code has it.  For a select that is not disabled: an option found by the
  exact pass, or else by the substring pass, is selected and the fallback is not used.
  When both passes find nothing, the fallback runs exactly when \<open>selectedIndex\<close> is at
  most 0, that is when no option is selected or the first option is the selected one,
  and there is more than one option.  It then selects the second option when the first
  has an empty value or a text that, lowercased, contains \<open>select\<close> or \<open>choose\<close>, and
  the first option otherwise, triggers \<open>change\<close> and reports the field as filled.  When
  it does not run, the select is left as it was and reported as not filled.
\<close>

theorem select_fallback_guard:
  assumes "\<not> e_disabled select"
  shows "(\<forall>i. exactPass (possibleValues v) (e_options select) = Inr (Some i) \<longrightarrow>
            fillSelectField select v = Inr (True, select\<lparr>e_selectedIndex := int i\<rparr>, [''change'']))
       \<and> (\<forall>i. exactPass (possibleValues v) (e_options select) = Inr None
              \<and> substringPass (possibleValues v) (e_options select) = Inr (Some i) \<longrightarrow>
            fillSelectField select v = Inr (True, select\<lparr>e_selectedIndex := int i\<rparr>, [''change'']))
       \<and> (exactPass (possibleValues v) (e_options select) = Inr None
              \<and> substringPass (possibleValues v) (e_options select) = Inr None \<longrightarrow>
            fillSelectField select v =
              (if e_selectedIndex select \<le> 0 \<and> 1 < length (e_options select)
               then Inr (True,
                         select\<lparr>e_selectedIndex :=
                           (if o_value (e_options select ! 0) = []
                               \<or> str_includes (toLowerCase (o_text (e_options select ! 0))) ''select''
                               \<or> str_includes (toLowerCase (o_text (e_options select ! 0))) ''choose''
                            then 1 else 0)\<rparr>,
                         [''change''])
               else Inr (False, select, [])))"
  using assms fillSelectField_found_exact [of select v] fillSelectField_found_substring [of select v]
    fillSelectField_no_match [of select v]
  by (simp add: isPlaceholder_def)

text \<open>
  In a list box with nothing selected whose first option reads \<open>Choose a country\<close>:
  \<open>CANADA\<close> equals the third option, \<open>united\<close> is part of the second, and
  \<open>Germany\<close> matches no option, so that the fallback selects the second option.
\<close>

theorem select_fallback_guard_witness:
  "\<not> e_disabled c5_listbox
   \<and> exactPass (possibleValues (VString ''CANADA'')) (e_options c5_listbox) = Inr (Some 2)
   \<and> fillSelectField c5_listbox (VString ''CANADA'')
       = Inr (True, c5_listbox\<lparr>e_selectedIndex := 2\<rparr>, [''change''])
   \<and> exactPass (possibleValues (VString ''united'')) (e_options c5_listbox) = Inr None
   \<and> substringPass (possibleValues (VString ''united'')) (e_options c5_listbox) = Inr (Some 1)
   \<and> fillSelectField c5_listbox (VString ''united'')
       = Inr (True, c5_listbox\<lparr>e_selectedIndex := 1\<rparr>, [''change''])
   \<and> exactPass (possibleValues (VString ''Germany'')) (e_options c5_listbox) = Inr None
   \<and> substringPass (possibleValues (VString ''Germany'')) (e_options c5_listbox) = Inr None
   \<and> fillSelectField c5_listbox (VString ''Germany'')
       = Inr (True, c5_listbox\<lparr>e_selectedIndex := 1\<rparr>, [''change''])"
proof -
  have d: "\<not> e_disabled c5_listbox"
    by (simp add: c5_listbox_def)
  have x: "exactPass (possibleValues (VString ''CANADA'')) (e_options c5_listbox) = Inr (Some 2)"
    by code_simp
  have u: "exactPass (possibleValues (VString ''united'')) (e_options c5_listbox) = Inr None"
    "substringPass (possibleValues (VString ''united'')) (e_options c5_listbox) = Inr (Some 1)"
    by code_simp+
  have e: "exactPass (possibleValues (VString ''Germany'')) (e_options c5_listbox) = Inr None"
    by code_simp
  have s: "substringPass (possibleValues (VString ''Germany'')) (e_options c5_listbox) = Inr None"
    by code_simp
  have i: "e_selectedIndex c5_listbox \<le> 0 \<and> 1 < length (e_options c5_listbox)"
    by (simp add: c5_listbox_def)
  have p: "str_includes (toLowerCase (o_text (e_options c5_listbox ! 0))) ''choose''"
    by code_simp
  from select_fallback_guard [OF d, of "VString ''CANADA''"] x
  have 1: "fillSelectField c5_listbox (VString ''CANADA'')
          = Inr (True, c5_listbox\<lparr>e_selectedIndex := 2\<rparr>, [''change''])"
    by simp
  from select_fallback_guard [OF d, of "VString ''united''"] u
  have 2: "fillSelectField c5_listbox (VString ''united'')
          = Inr (True, c5_listbox\<lparr>e_selectedIndex := 1\<rparr>, [''change''])"
    by simp
  from select_fallback_guard [OF d, of "VString ''Germany''"] e s i p
  have 3: "fillSelectField c5_listbox (VString ''Germany'')
          = Inr (True, c5_listbox\<lparr>e_selectedIndex := 1\<rparr>, [''change''])"
    by simp
  from d x 1 u 2 e s 3 show ?thesis by simp
qed

text \<open>
  The claim as worded fails on a drop-down whose first option is the selected one
  (\<open>selectedIndex\<close> is 0, so an option is selected): both passes find nothing for
  \<open>Germany\<close>, and the fallback still runs, triggers \<open>change\<close> and reports the field
  as filled.
\<close>

theorem select_fallback_guard_counterexample:
  "e_selectedIndex c5_select = 0
   \<and> o_value (e_options c5_select ! 0) = ''us''
   \<and> exactPass (possibleValues (VString ''Germany'')) (e_options c5_select) = Inr None
   \<and> substringPass (possibleValues (VString ''Germany'')) (e_options c5_select) = Inr None
   \<and> fillSelectField c5_select (VString ''Germany'')
       = Inr (True, c5_select\<lparr>e_selectedIndex := 0\<rparr>, [''change''])"
  by code_simp

text \<open>
  C4.  The select has the options \<open>""\<close>, \<open>Select...\<close>, \<open>male\<close>, \<open>female\<close>, is not
  disabled and has its first option selected; the value is \<open>man\<close>.  No option equals
  or contains \<open>man\<close>, and the fallback, which is to select the first option that is
  not a placeholder, tests the first option only: it returns true with the option at
  index 1 selected.  That option, \<open>Select...\<close>, is a placeholder by the fallback's own
  test; the first option that is not one is \<open>male\<close>, at index 2.
\<close>

theorem select_man_selects_placeholder:
  "\<not> e_disabled c4_select \<and> e_selectedIndex c4_select = 0
   \<and> exactPass (possibleValues (VString ''man'')) (e_options c4_select) = Inr None
   \<and> substringPass (possibleValues (VString ''man'')) (e_options c4_select) = Inr None
   \<and> fillSelectField c4_select (VString ''man'')
       = Inr (True, c4_select\<lparr>e_selectedIndex := 1\<rparr>, [''change''])
   \<and> o_text (e_options c4_select ! 1) = ''Select...''
   \<and> isPlaceholder (e_options c4_select ! 1)
   \<and> o_text (e_options c4_select ! 2) = ''male''
   \<and> \<not> isPlaceholder (e_options c4_select ! 2)"
  by code_simp

section \<open>Filling a checkbox or radio button\<close>

lemma applyFill_unchanged:
  "applyFill pg p (filled, p_elements pg p, []) = (filled, pg)"
  by (simp add: applyFill_def)

lemma fillToggleField_boolean:
  "\<not> e_disabled input \<Longrightarrow>
   fillToggleField input (VBoolean b) =
     (if e_checked input = b then (True, input, [])
      else (True, input\<lparr>e_checked := b\<rparr>, [''click'', ''change'']))"
  by (simp add: fillToggleField_def checkedDiffers_def valueToBoolean_def)

lemma fillField_try_toggle:
  "findBestMapping ms field = Some m \<Longrightarrow> f_type field = CHECKBOX \<or> f_type field = RADIO \<Longrightarrow>
   fillField_try ms pg field =
     Inr (applyFill pg (f_element field)
            (fillToggleField (p_elements pg (f_element field)) (m_value m)))"
  by (auto simp: fillField_try_def Let_def)

text \<open>
  C7.  On a checkbox or radio button that is not disabled, with a boolean mapping
  value: when the checked state already equals the value, the operation triggers no
  event, leaves the element as it is and returns true; when it differs, the operation
  sets the checked state to the value, triggers \<open>click\<close> and then \<open>change\<close>, and
  returns true.  Through \<open>fillField\<close>, a field of type CHECKBOX or RADIO whose element
  is already in the state of its mapping is reported as filled and the page, with its
  list of dispatched events, stays as it was.
\<close>

theorem toggle_idempotent:
  assumes "\<not> e_disabled input"
  shows "fillToggleField input (VBoolean b) =
           (if e_checked input = b then (True, input, [])
            else (True, input\<lparr>e_checked := b\<rparr>, [''click'', ''change'']))
         \<and> (findBestMapping ms field = Some m \<and> m_value m = VBoolean b
              \<and> (f_type field = CHECKBOX \<or> f_type field = RADIO)
              \<and> p_elements pg (f_element field) = input \<and> e_checked input = b
            \<longrightarrow> fillField ms pg field = Inr (True, pg))"
proof -
  have 1: "fillToggleField input (VBoolean b) =
           (if e_checked input = b then (True, input, [])
            else (True, input\<lparr>e_checked := b\<rparr>, [''click'', ''change'']))"
    using assms by (rule fillToggleField_boolean)
  have 2: "fillField ms pg field = Inr (True, pg)"
    if h: "findBestMapping ms field = Some m" "m_value m = VBoolean b"
      "f_type field = CHECKBOX \<or> f_type field = RADIO"
      "p_elements pg (f_element field) = input" "e_checked input = b"
  proof -
    from 1 h(5) have "fillToggleField input (VBoolean b) = (True, input, [])"
      by simp
    with fillField_try_toggle [OF h(1) h(3), of pg] h(2) h(4)
    have "fillField_try ms pg field = Inr (applyFill pg (f_element field) (True, p_elements pg (f_element field), []))"
      by simp
    then have "fillField_try ms pg field = Inr (True, pg)"
      by (simp only: applyFill_unchanged)
    then show ?thesis
      by (simp add: fillField_def)
  qed
  from 1 2 show ?thesis by blast
qed

text \<open>
  A checked checkbox and the default mapping for terms, whose value is true.
\<close>

theorem toggle_idempotent_witness:
  "\<not> e_disabled c7_checkbox \<and> e_checked c7_checkbox = True
   \<and> findBestMapping [c7_mapping] c7_field = Some c7_mapping
   \<and> fillToggleField c7_checkbox (VBoolean True) = (True, c7_checkbox, [])
   \<and> fillToggleField c7_checkbox (VBoolean False)
       = (True, c7_checkbox\<lparr>e_checked := False\<rparr>, [''click'', ''change''])
   \<and> fillField [c7_mapping] c7_page c7_field = Inr (True, c7_page)"
proof -
  have d: "\<not> e_disabled c7_checkbox" and c: "e_checked c7_checkbox = True"
    by (simp_all add: c7_checkbox_def)
  have m: "findBestMapping [c7_mapping] c7_field = Some c7_mapping"
    by code_simp
  have v: "m_value c7_mapping = VBoolean True"
    by (simp add: c7_mapping_def)
  have t: "f_type c7_field = CHECKBOX \<or> f_type c7_field = RADIO"
    by (simp add: c7_field_def)
  have p: "p_elements c7_page (f_element c7_field) = c7_checkbox"
    by (simp add: c7_page_def)
  from toggle_idempotent [OF d, of True "[c7_mapping]" c7_field c7_mapping c7_page] m v t p c
  have a: "fillToggleField c7_checkbox (VBoolean True) = (True, c7_checkbox, [])"
    and f: "fillField [c7_mapping] c7_page c7_field = Inr (True, c7_page)"
    by simp_all
  from toggle_idempotent [OF d, of False "[c7_mapping]" c7_field c7_mapping c7_page] c
  have b: "fillToggleField c7_checkbox (VBoolean False)
       = (True, c7_checkbox\<lparr>e_checked := False\<rparr>, [''click'', ''change''])"
    by simp
  from d c m a b f show ?thesis by simp
qed

section \<open>The fill loop never raises\<close>

lemma fillField_eq:
  "fillField ms pg field = Inr (fieldFilled ms pg field, pageAfter ms pg field)"
  by (simp add: fillField_def fieldFilled_def pageAfter_def split: sum.splits prod.splits)

lemma fillFields_eq:
  "fillFields ms detected pg n = Inr (n + countFilled ms detected pg, pageAfterAll ms detected pg)"
  by (induction detected arbitrary: pg n) (simp_all add: fillField_eq)

lemma countFilled_le:
  "countFilled ms detected pg \<le> length detected"
  by (induction detected arbitrary: pg) (simp_all add: le_SucI)

lemma fillField_caught:
  "fillField_try ms pg field = Inl e \<Longrightarrow> fillField ms pg field = Inr (False, pg)"
  by (simp add: fillField_def)

lemma fillField_try_select:
  "findBestMapping ms field = Some m \<Longrightarrow> f_type field = SELECT \<Longrightarrow>
   fillField_try ms pg field =
     (case fillSelectField (p_elements pg (f_element field)) (m_value m) of
        Inl e \<Rightarrow> Inl e
      | Inr r \<Rightarrow> Inr (applyFill pg (f_element field) r))"
  by (simp add: fillField_try_def Let_def)

lemma fillField_try_text:
  "findBestMapping ms field = Some m \<Longrightarrow> f_type field = TEXT \<Longrightarrow>
   fillField_try ms pg field =
     Inr (applyFill pg (f_element field) (fillInputField (p_elements pg (f_element field)) (m_value m)))"
  by (simp add: fillField_try_def Let_def)

text \<open>
  The loop of \<open>fillForms\<close>, for every list of detected fields, mapping table and page,
  returns a count and never an exception.  The count is the number of fields for which
  the body of \<open>fillField\<close> ran to its end and reported the field as filled, so it is
  at most the number of fields.  A field whose matching or filling raises an exception
  is reported as not filled, the page stays as it was, and the loop goes on with the
  next field.
\<close>

lemma fill_loop_catches:
  "fillFields ms detected pg 0 = Inr (countFilled ms detected pg, pageAfterAll ms detected pg)
   \<and> countFilled ms detected pg \<le> length detected
   \<and> (fillField_try ms pg field = Inl e \<longrightarrow>
        fillField ms pg field = Inr (False, pg)
        \<and> fillFields ms (field # detected) pg n = fillFields ms detected pg n)
   \<and> (fillField_try ms pg field = Inr (filled, pg') \<longrightarrow>
        fillFields ms (field # detected) pg n
          = fillFields ms detected pg' (if filled then n + 1 else n))"
proof -
  have 1: "fillFields ms detected pg 0 = Inr (countFilled ms detected pg, pageAfterAll ms detected pg)"
    using fillFields_eq [of ms detected pg 0] by simp
  have 2: "fillField ms pg field = Inr (False, pg)
        \<and> fillFields ms (field # detected) pg n = fillFields ms detected pg n"
    if "fillField_try ms pg field = Inl e"
    using fillField_caught [OF that] by simp
  have 3: "fillFields ms (field # detected) pg n
          = fillFields ms detected pg' (if filled then n + 1 else n)"
    if "fillField_try ms pg field = Inr (filled, pg')"
    using that by (simp add: fillField_def)
  from 1 2 3 countFilled_le [of ms detected pg] show ?thesis by blast
qed

text \<open>
  \<open>fillForms\<close> returns that count for the fields it detects, and raises exactly when
  the detection raises.
\<close>

lemma fillForms_eq:
  "fillForms qs d ms pg =
     (case detectFields qs d of
        Inl e \<Rightarrow> Inl e
      | Inr detected \<Rightarrow> Inr (countFilled ms detected pg, pageAfterAll ms detected pg))"
  by (simp add: fillForms_def fillFields_eq split: sum.splits)

text \<open>
  On the example page the mapping bound to the select holds a boolean, so lowercasing
  it raises a TypeError.  The exception is caught, the select is not counted, and the
  text input after it is still filled: the count is 1.
\<close>

lemma fill_loop_example:
  "fillField_try c6_mappings c6_page c6_selectField = Inl TypeError
   \<and> fillField c6_mappings c6_page c6_selectField = Inr (False, c6_page)
   \<and> fillField_try c6_mappings c6_page c6_textField = Inr (True, c6_pageAfter)
   \<and> fillFields c6_mappings [c6_selectField, c6_textField] c6_page 0 = Inr (1, c6_pageAfter)
   \<and> e_value (p_elements c6_pageAfter [0, 1]) = ''John''"
proof -
  have m: "findBestMapping c6_mappings c6_selectField = Some (c6_mappings ! 0)"
    by code_simp
  have v: "m_value (c6_mappings ! 0) = VBoolean True"
    by (simp add: c6_mappings_def)
  have x: "fillSelectField c5_select (VBoolean True) = Inl TypeError"
    by code_simp
  have k: "f_type c6_selectField = SELECT"
    by (simp add: c6_selectField_def)
  have el: "p_elements c6_page (f_element c6_selectField) = c5_select"
    by (simp add: c6_page_def c6_selectField_def)
  have t: "fillField_try c6_mappings c6_page c6_selectField = Inl TypeError"
    using fillField_try_select [OF m k, of c6_page] by (simp add: v x el)
  have m2: "findBestMapping c6_mappings c6_textField = Some (c6_mappings ! 1)"
    by code_simp
  have v2: "m_value (c6_mappings ! 1) = VString ''John''"
    by (simp add: c6_mappings_def)
  have k2: "f_type c6_textField = TEXT" and p2: "f_element c6_textField = [0, 1]"
    by (simp_all add: c6_textField_def)
  have el2: "p_elements c6_page [0, 1] = c6_textInput"
    by (simp add: c6_page_def)
  have i2: "fillInputField c6_textInput (VString ''John'')
              = (True, c6_textInput\<lparr>e_value := ''John''\<rparr>, [''input'', ''change''])"
    by code_simp
  have e2: "p_events c6_page = []"
    by (simp add: c6_page_def)
  have t2: "fillField_try c6_mappings c6_page c6_textField = Inr (True, c6_pageAfter)"
    using fillField_try_text [OF m2 k2, of c6_page] unfolding p2 el2 v2 i2
    by (simp add: e2 applyFill_def c6_pageAfter_def)
  from fill_loop_catches [where ms = c6_mappings and detected = "[c6_textField]" and pg = c6_page
      and field = c6_selectField and e = TypeError and n = 0] t
  have c: "fillField c6_mappings c6_page c6_selectField = Inr (False, c6_page)"
    and s: "fillFields c6_mappings [c6_selectField, c6_textField] c6_page 0
            = fillFields c6_mappings [c6_textField] c6_page 0"
    by simp_all
  from fill_loop_catches [where ms = c6_mappings and detected = "[]" and pg = c6_page
      and field = c6_textField and filled = True and pg' = c6_pageAfter and n = 0] t2
  have s2: "fillFields c6_mappings [c6_textField] c6_page 0 = Inr (1, c6_pageAfter)"
    by simp
  have j: "e_value (p_elements c6_pageAfter [0, 1]) = ''John''"
    by (simp add: c6_pageAfter_def)
  from t c t2 s s2 j show ?thesis by simp
qed

text \<open>
  C6.  The top-level operation \<open>fillForms\<close> is to return a count and never to raise.
  On a document without a body and without a field inside a form, such as an SVG image
  opened in a tab, the scan of the forms finds nothing, the direct scan dereferences
  \<open>document.body\<close>, which is \<open>null\<close>, and the TypeError leaves \<open>detectFields\<close> and
  \<open>fillForms\<close>: no count is returned, whatever the mapping table.
\<close>

theorem fillForms_raises_without_body:
  "documentBody svgDoc = None
   \<and> formFields noLabels (d_root svgDoc) = []
   \<and> detectFields noLabels svgDoc = Inl TypeError
   \<and> fillForms noLabels svgDoc c6_mappings c6_page = Inl TypeError"
proof -
  have b: "documentBody svgDoc = None"
    by code_simp
  have f: "formFields noLabels (d_root svgDoc) = []"
    by code_simp
  have d: "detectFields noLabels svgDoc = Inl TypeError"
    by code_simp
  from d have "fillForms noLabels svgDoc c6_mappings c6_page = Inl TypeError"
    by (simp add: fillForms_def)
  with b f d show ?thesis by simp
qed

section \<open>Detection\<close>

lemma descendants_paths:
  "(q, n) \<in> set (descendants p m) \<Longrightarrow> \<exists>r. r \<noteq> [] \<and> q = p @ r \<and> node_at m r = Some n"
  "(q, n) \<in> set (descendantsFrom p i ks) \<Longrightarrow>
     \<exists>j r. j < length ks \<and> q = p @ (i + j) # r \<and> node_at (ks ! j) r = Some n"
proof (induction p m and p i ks arbitrary: q n and q n rule: descendants_descendantsFrom.induct)
  case (1 p s)
  then show ?case by simp
next
  case (2 p html pfx name attrs kids)
  from "2.prems" have "(q, n) \<in> set (descendantsFrom p 0 kids)"
    by simp
  from "2.IH" [OF this]
  obtain j r where "j < length kids" "q = p @ (0 + j) # r" "node_at (kids ! j) r = Some n"
    by blast
  then have "j # r \<noteq> [] \<and> q = p @ (j # r) \<and> node_at (Elem html pfx name attrs kids) (j # r) = Some n"
    by simp
  then show ?case by blast
next
  case (3 p i)
  then show ?case by simp
next
  case (4 p i k ks)
  from "4.prems" have "(q, n) = (p @ [i], k) \<or> (q, n) \<in> set (descendants (p @ [i]) k)
      \<or> (q, n) \<in> set (descendantsFrom p (Suc i) ks)"
    by simp
  then consider
    (here) "(q, n) = (p @ [i], k)"
    | (below) "(q, n) \<in> set (descendants (p @ [i]) k)"
    | (later) "(q, n) \<in> set (descendantsFrom p (Suc i) ks)"
    by blast
  then show ?case
  proof cases
    case here
    then have "0 < length (k # ks) \<and> q = p @ (i + 0) # [] \<and> node_at ((k # ks) ! 0) [] = Some n"
      by simp
    then show ?thesis by blast
  next
    case below
    from "4.IH"(1) [OF below] obtain r where "r \<noteq> []" "q = (p @ [i]) @ r" "node_at k r = Some n"
      by blast
    then have "0 < length (k # ks) \<and> q = p @ (i + 0) # r \<and> node_at ((k # ks) ! 0) r = Some n"
      by simp
    then show ?thesis by blast
  next
    case later
    from "4.IH"(2) [OF later] obtain j r where
      "j < length ks" "q = p @ (Suc i + j) # r" "node_at (ks ! j) r = Some n"
      by blast
    then have "Suc j < length (k # ks) \<and> q = p @ (i + Suc j) # r \<and> node_at ((k # ks) ! Suc j) r = Some n"
      by simp
    then show ?thesis by blast
  qed
qed

lemma node_at_append:
  "node_at root q = Some m \<Longrightarrow> node_at root (q @ r) = node_at m r"
proof (induction q arbitrary: root)
  case Nil
  then show ?case by simp
next
  case (Cons i q)
  then show ?case
    by (cases root) (auto split: if_splits)
qed

lemma collectFields_mem:
  "f \<in> set (collectFields qs root inputs) \<Longrightarrow>
   \<exists>p n. (p, n) \<in> set inputs \<and> createDetectedField qs root p n = Inr (Some f)"
proof (induction inputs)
  case Nil
  then show ?case by simp
next
  case (Cons a inputs)
  obtain p n where a: "a = (p, n)" by (cases a)
  show ?case
  proof (cases "createDetectedField qs root p n")
    case (Inl e)
    with Cons a show ?thesis by auto
  next
    case (Inr r)
    show ?thesis
    proof (cases r)
      case None
      with Cons a Inr show ?thesis by auto
    next
      case (Some g)
      with Cons a Inr show ?thesis by auto
    qed
  qed
qed

lemma detectFieldsInElement_mem:
  assumes "f \<in> set (detectFieldsInElement qs root q m)" and "node_at root q = Some m"
  shows "\<exists>r n. r \<noteq> [] \<and> node_at root (q @ r) = Some n \<and> fillable n
           \<and> createDetectedField qs root (q @ r) n = Inr (Some f)"
proof -
  from assms(1) obtain p n where
    pn: "(p, n) \<in> set (querySelectorAll [''input'', ''select'', ''textarea''] q m)"
    and c: "createDetectedField qs root p n = Inr (Some f)"
    unfolding detectFieldsInElement_def by (blast dest: collectFields_mem)
  from pn have d: "(p, n) \<in> set (descendants q m)" and t: "fillable n"
    by (auto simp: querySelectorAll_def matchesSelector_def fillable_def)
  from descendants_paths(1) [OF d] obtain r where r: "r \<noteq> []" "p = q @ r" "node_at m r = Some n"
    by blast
  with node_at_append [OF assms(2), of r] have "node_at root (q @ r) = Some n" by simp
  with r t c show ?thesis by blast
qed

lemma documentQuerySelectorAll_node_at:
  assumes "(q, n) \<in> set (documentQuerySelectorAll tags root)"
  shows "node_at root q = Some n"
proof -
  from assms have "(q, n) \<in> set (([], root) # descendants [] root)"
    unfolding documentQuerySelectorAll_def by (rule filter_is_subset [THEN subsetD])
  then have "(q, n) = ([], root) \<or> (q, n) \<in> set (descendants [] root)"
    by simp
  then show ?thesis
  proof
    assume "(q, n) = ([], root)"
    then show ?thesis by simp
  next
    assume "(q, n) \<in> set (descendants [] root)"
    from descendants_paths(1) [OF this] show ?thesis by simp
  qed
qed

lemma formFields_mem:
  assumes "f \<in> set (formFields qs root)"
  shows "\<exists>q form r n. (q, form) \<in> set (documentQuerySelectorAll [''form''] root) \<and> r \<noteq> []
           \<and> node_at root (q @ r) = Some n \<and> fillable n
           \<and> createDetectedField qs root (q @ r) n = Inr (Some f)"
proof -
  from assms obtain q form where
    qf: "(q, form) \<in> set (documentQuerySelectorAll [''form''] root)"
    and m: "f \<in> set (detectFieldsInElement qs root q form)"
    by (auto simp: formFields_def detectFieldsInForm_def)
  from documentQuerySelectorAll_node_at [OF qf] have "node_at root q = Some form" .
  from detectFieldsInElement_mem [OF m this] qf show ?thesis by blast
qed

lemma documentBody_node_at:
  "documentBody d = Some (p, body) \<Longrightarrow> node_at (d_root d) p = Some body"
  by (auto simp: documentBody_def split: option.splits if_splits)

lemma detectFields_cases:
  "detectFields qs d =
     (if formFields qs (d_root d) = []
      then (case documentBody d of
              None \<Rightarrow> Inl TypeError
            | Some (p, body) \<Rightarrow> Inr (detectFieldsInElement qs (d_root d) p body))
      else Inr (formFields qs (d_root d)))"
  by (simp add: detectFields_def Let_def split: option.splits)

lemma detectFields_mem:
  assumes "detectFields qs d = Inr fs" and "f \<in> set fs"
  shows "\<exists>p n. node_at (d_root d) p = Some n \<and> fillable n
           \<and> createDetectedField qs (d_root d) p n = Inr (Some f)"
proof (cases "formFields qs (d_root d) = []")
  case True
  with assms(1) obtain p body where
    b: "documentBody d = Some (p, body)" and fs: "fs = detectFieldsInElement qs (d_root d) p body"
    by (auto simp: detectFields_cases split: option.splits)
  from assms(2) fs have "f \<in> set (detectFieldsInElement qs (d_root d) p body)"
    by simp
  from detectFieldsInElement_mem [OF this documentBody_node_at [OF b]] show ?thesis
    by blast
next
  case False
  with assms have "f \<in> set (formFields qs (d_root d))"
    by (simp add: detectFields_cases)
  from formFields_mem [OF this] show ?thesis by blast
qed

lemma createDetectedField_Some:
  assumes "createDetectedField qs root p n = Inr (Some f)"
  shows "\<not> skipped n" and "f_element f = p"
    and "f_id f = attributeOrEmpty n ''id''" and "f_name f = attributeOrEmpty n ''name''"
    and "f_placeholder f = Some (attributeOrEmpty n ''placeholder'')"
    and "f_type f = determineFieldType n"
    and "attributeOrEmpty n ''id'' \<noteq> [] \<or> attributeOrEmpty n ''name'' \<noteq> []
         \<or> attributeOrEmpty n ''placeholder'' \<noteq> []"
  using assms
  by (auto simp: createDetectedField_def Let_def split: if_splits sum.splits)

lemma formFields_no_forms:
  "documentQuerySelectorAll [''form''] root = [] \<Longrightarrow> formFields qs root = []"
  by (simp add: formFields_def)

lemma formFields_inside_form:
  assumes "f \<in> set (formFields qs root)"
  shows "\<exists>q form. (q, form) \<in> set (documentQuerySelectorAll [''form''] root)
           \<and> strict_prefix q (f_element f)"
proof -
  from formFields_mem [OF assms] obtain q form r n where
    h: "(q, form) \<in> set (documentQuerySelectorAll [''form''] root)" "r \<noteq> []"
       "createDetectedField qs root (q @ r) n = Inr (Some f)"
    by blast
  from createDetectedField_Some(2) [OF h(3)] have "f_element f = q @ r" .
  with h(2) have "strict_prefix q (f_element f)"
    by (simp add: strict_prefix_def)
  with h(1) show ?thesis by blast
qed

text \<open>
  C3, as the code has it.  The scanner scans the whole root directly exactly when the
  scan of the form containers produced no field: that is so when the root has no form
  container, and also when it has containers whose elements are all skipped.  When the
  containers produce at least one field, the result is the fields of the containers
  alone, each from an element inside a form, and the rest of the root is not scanned.
  The root of the direct scan is \<open>document.body\<close>.
\<close>

theorem direct_scan_condition:
  "detectFields qs d =
     (if formFields qs (d_root d) = []
      then (case documentBody d of
              None \<Rightarrow> Inl TypeError
            | Some (p, body) \<Rightarrow> Inr (detectFieldsInElement qs (d_root d) p body))
      else Inr (formFields qs (d_root d)))
   \<and> (documentQuerySelectorAll [''form''] (d_root d) = [] \<longrightarrow> formFields qs (d_root d) = [])
   \<and> (formFields qs (d_root d) \<noteq> [] \<longrightarrow>
        (\<exists>fs. detectFields qs d = Inr fs
           \<and> (\<forall>f\<in>set fs.
                 \<exists>q form. (q, form) \<in> set (documentQuerySelectorAll [''form''] (d_root d))
                          \<and> strict_prefix q (f_element f))))"
proof -
  have "\<exists>fs. detectFields qs d = Inr fs
           \<and> (\<forall>f\<in>set fs.
                 \<exists>q form. (q, form) \<in> set (documentQuerySelectorAll [''form''] (d_root d))
                          \<and> strict_prefix q (f_element f))"
    if "formFields qs (d_root d) \<noteq> []"
  proof -
    from that have "detectFields qs d = Inr (formFields qs (d_root d))"
      by (simp add: detectFields_cases)
    with formFields_inside_form [of _ qs "d_root d"] show ?thesis by blast
  qed
  with detectFields_cases [of qs d] formFields_no_forms [of "d_root d" qs] show ?thesis
    by blast
qed

text \<open>
  In the sign-up document the form produces fields, and they are the result.  In the
  search document the form produces none, and the result is the direct scan of the
  body.  A document with an empty body has no form and the direct scan finds nothing.
\<close>

theorem direct_scan_condition_witness:
  "formFields noLabels (d_root signupDoc) \<noteq> []
   \<and> detectFields noLabels signupDoc = Inr (formFields noLabels (d_root signupDoc))
   \<and> list_all (\<lambda>f. strict_prefix [0, 0] (f_element f)) (formFields noLabels (d_root signupDoc))
   \<and> formFields noLabels (d_root searchDoc) = []
   \<and> detectFields noLabels searchDoc
       = Inr (detectFieldsInElement noLabels (d_root searchDoc) [0]
                (the (node_at (d_root searchDoc) [0])))
   \<and> documentQuerySelectorAll [''form''] (d_root emptyDoc) = []
   \<and> detectFields noLabels emptyDoc = Inr []"
proof -
  have a: "formFields noLabels (d_root signupDoc) \<noteq> []"
    by code_simp
  have b: "formFields noLabels (d_root searchDoc) = []"
    by code_simp
  have c: "documentQuerySelectorAll [''form''] (d_root emptyDoc) = []"
    by code_simp
  have d: "map fst (documentQuerySelectorAll [''form''] (d_root signupDoc)) = [[0, 0]]"
    by code_simp
  have e: "documentBody emptyDoc = Some ([0], htmlTag ''body'' [] [])"
    by code_simp
  have e': "detectFieldsInElement noLabels (d_root emptyDoc) [0] (htmlTag ''body'' [] []) = []"
    by code_simp
  have g: "documentBody searchDoc = Some ([0], the (node_at (d_root searchDoc) [0]))"
    by code_simp
  from direct_scan_condition [of noLabels signupDoc] a
  have 1: "detectFields noLabels signupDoc = Inr (formFields noLabels (d_root signupDoc))"
    by simp
  from direct_scan_condition [of noLabels signupDoc] a
  have 2: "\<exists>fs. detectFields noLabels signupDoc = Inr fs
             \<and> (\<forall>f\<in>set fs.
             \<exists>q form. (q, form) \<in> set (documentQuerySelectorAll [''form''] (d_root signupDoc))
                      \<and> strict_prefix q (f_element f))"
    by blast
  have 3: "\<forall>f\<in>set (formFields noLabels (d_root signupDoc)). strict_prefix [0, 0] (f_element f)"
  proof
    fix f assume "f \<in> set (formFields noLabels (d_root signupDoc))"
    with 1 2 obtain q form where
      "(q, form) \<in> set (documentQuerySelectorAll [''form''] (d_root signupDoc))"
      "strict_prefix q (f_element f)"
      by auto
    moreover from this(1)
    have "q \<in> set (map fst (documentQuerySelectorAll [''form''] (d_root signupDoc)))"
      by force
    ultimately show "strict_prefix [0, 0] (f_element f)"
      by (simp add: d)
  qed
  from direct_scan_condition [of noLabels searchDoc] b g
  have 4: "detectFields noLabels searchDoc
       = Inr (detectFieldsInElement noLabels (d_root searchDoc) [0]
                (the (node_at (d_root searchDoc) [0])))"
    by simp
  from direct_scan_condition [of noLabels emptyDoc] c e e'
  have 5: "detectFields noLabels emptyDoc = Inr []"
    by simp
  from 3 have 6: "list_all (\<lambda>f. strict_prefix [0, 0] (f_element f)) (formFields noLabels (d_root signupDoc))"
    by (simp add: list_all_iff)
  from a 1 6 b 4 c 5 show ?thesis by simp
qed

text \<open>
  The claim as worded fails on the search document: it has a form container, at path
  0, 0, the container's elements are all skipped, and the scanner scans the body
  directly and returns the search input at path 0, 1, which lies outside the form.
\<close>

theorem direct_scan_counterexample:
  "map fst (documentQuerySelectorAll [''form''] (d_root searchDoc)) = [[0, 0]]
   \<and> detectFields noLabels searchDoc
       = Inr [\<lparr>f_id = [], f_name = ''q'', f_type = SEARCH, f_element = [0, 1],
               f_label = None, f_placeholder = Some [],
               f_attributes = [(''type'', ''search''), (''name'', ''q'')]\<rparr>]
   \<and> \<not> prefix [0, 0] [0, 1::nat]"
  by code_simp

lemma detectFields_origin:
  assumes "detectFields qs d = Inr fs" and "f \<in> set fs"
  shows "\<exists>n. node_at (d_root d) (f_element f) = Some n \<and> fillable n
           \<and> createDetectedField qs (d_root d) (f_element f) n = Inr (Some f)"
proof -
  from detectFields_mem [OF assms] obtain p n where
    h: "node_at (d_root d) p = Some n" "fillable n"
       "createDetectedField qs (d_root d) p n = Inr (Some f)"
    by blast
  from createDetectedField_Some(2) [OF h(3)] have "f_element f = p" .
  with h show ?thesis by blast
qed

lemma skipped_iff:
  "skipped element \<longleftrightarrow>
     getAttribute element ''type''
       \<in> {Some ''hidden'', Some ''submit'', Some ''button'', Some ''image'', Some ''reset''}
     \<or> hasAttribute element ''disabled''"
  by (auto simp: skipped_def)

text \<open>
  C8.  Every field in the output of \<open>detectFields\<close> comes from an element of the
  document whose type attribute is none of hidden, submit, button, image and reset and
  which has no disabled attribute.  So an element with one of these types, or with a
  disabled attribute, is the element of no field in the output, wherever it stands in
  the document.
\<close>

theorem exclusion_invariant:
  assumes "detectFields qs d = Inr fs"
  shows "(\<forall>f\<in>set fs.
      \<exists>element. node_at (d_root d) (f_element f) = Some element
        \<and> getAttribute element ''type''
            \<notin> {Some ''hidden'', Some ''submit'', Some ''button'', Some ''image'', Some ''reset''}
        \<and> \<not> hasAttribute element ''disabled'')
   \<and> (node_at (d_root d) p = Some element
        \<and> (getAttribute element ''type''
              \<in> {Some ''hidden'', Some ''submit'', Some ''button'', Some ''image'', Some ''reset''}
            \<or> hasAttribute element ''disabled'')
      \<longrightarrow> (\<forall>f\<in>set fs. f_element f \<noteq> p))"
proof -
  have 1: "\<exists>n. node_at (d_root d) (f_element f) = Some n \<and> \<not> skipped n"
    if "f \<in> set fs" for f
    using detectFields_origin [OF assms that] createDetectedField_Some(1) by blast
  have 2: "\<forall>f\<in>set fs. f_element f \<noteq> p"
    if "node_at (d_root d) p = Some element" "skipped element"
  proof
    fix f assume "f \<in> set fs"
    from 1 [OF this] that show "f_element f \<noteq> p" by auto
  qed
  from 1 2 show ?thesis
    unfolding skipped_iff by blast
qed

theorem exclusion_invariant_witness:
  "detectFields noLabels signupDoc = Inr (formFields noLabels (d_root signupDoc))
   \<and> map f_element (formFields noLabels (d_root signupDoc))
       = [[0, 0, 2], [0, 0, 4], [0, 0, 5], [0, 0, 6]]
   \<and> node_at (d_root signupDoc) [0, 0, 0]
       = Some (htmlTag ''input'' [(''type'', ''hidden''), (''name'', ''token'')] [])
   \<and> [0, 0, 0] \<notin> f_element ` set (formFields noLabels (d_root signupDoc))
   \<and> hasAttribute
        (htmlTag ''input'' [(''type'', ''email''), (''name'', ''old-email''), (''disabled'', [])] [])
        ''disabled''
   \<and> [0, 0, 1] \<notin> f_element ` set (formFields noLabels (d_root signupDoc))"
proof -
  let ?h = "htmlTag ''input'' [(''type'', ''hidden''), (''name'', ''token'')] []"
  let ?d = "htmlTag ''input'' [(''type'', ''email''), (''name'', ''old-email''), (''disabled'', [])] []"
  have r: "detectFields noLabels signupDoc = Inr (formFields noLabels (d_root signupDoc))"
    by code_simp
  have a: "node_at (d_root signupDoc) [0, 0, 0] = Some ?h"
    by code_simp
  have b: "node_at (d_root signupDoc) [0, 0, 1] = Some ?d"
    by code_simp
  have c: "hasAttribute ?d ''disabled''"
    by (simp add: hasAttribute_def htmlTag_def)
  have d: "getAttribute ?h ''type'' = Some ''hidden''"
    by (simp add: htmlTag_def)
  have e: "map f_element (formFields noLabels (d_root signupDoc))
             = [[0, 0, 2], [0, 0, 4], [0, 0, 5], [0, 0, 6]]"
    by code_simp
  from exclusion_invariant [OF r, of "[0, 0, 0]" ?h] a d
  have 1: "[0, 0, 0] \<notin> f_element ` set (formFields noLabels (d_root signupDoc))"
    by auto
  from exclusion_invariant [OF r, of "[0, 0, 1]" ?d] b c
  have 2: "[0, 0, 1] \<notin> f_element ` set (formFields noLabels (d_root signupDoc))"
    by auto
  from r e a 1 c 2 show ?thesis by simp
qed

text \<open>
  C9.  Every field in the output of \<open>detectFields\<close> carries the id, name and
  placeholder attributes of its element, an absent attribute read as the empty string,
  and at least one of the three is not empty.  An element for which all three are empty
  is the element of no field in the output.
\<close>

theorem identity_invariant:
  assumes "detectFields qs d = Inr fs"
  shows "(\<forall>f\<in>set fs.
      (f_id f \<noteq> [] \<or> f_name f \<noteq> [] \<or> (\<exists>s. f_placeholder f = Some s \<and> s \<noteq> []))
      \<and> (\<exists>element. node_at (d_root d) (f_element f) = Some element
            \<and> f_id f = attributeOrEmpty element ''id''
            \<and> f_name f = attributeOrEmpty element ''name''
            \<and> f_placeholder f = Some (attributeOrEmpty element ''placeholder'')))
   \<and> (node_at (d_root d) p = Some element
        \<and> attributeOrEmpty element ''id'' = []
        \<and> attributeOrEmpty element ''name'' = []
        \<and> attributeOrEmpty element ''placeholder'' = []
      \<longrightarrow> (\<forall>f\<in>set fs. f_element f \<noteq> p))"
proof -
  have 1: "\<exists>n. node_at (d_root d) (f_element f) = Some n
             \<and> f_id f = attributeOrEmpty n ''id''
             \<and> f_name f = attributeOrEmpty n ''name''
             \<and> f_placeholder f = Some (attributeOrEmpty n ''placeholder'')
             \<and> (attributeOrEmpty n ''id'' \<noteq> [] \<or> attributeOrEmpty n ''name'' \<noteq> []
                  \<or> attributeOrEmpty n ''placeholder'' \<noteq> [])"
    if "f \<in> set fs" for f
  proof -
    from detectFields_origin [OF assms that] obtain n where
      n: "node_at (d_root d) (f_element f) = Some n"
         "createDetectedField qs (d_root d) (f_element f) n = Inr (Some f)"
      by blast
    from n(1) createDetectedField_Some(3,4,5,7) [OF n(2)] show ?thesis by blast
  qed
  have 2: "f_id f \<noteq> [] \<or> f_name f \<noteq> [] \<or> (\<exists>s. f_placeholder f = Some s \<and> s \<noteq> [])"
    if "f \<in> set fs" for f
    using 1 [OF that] by auto
  have 3: "\<forall>f\<in>set fs. f_element f \<noteq> p"
    if "node_at (d_root d) p = Some element" "attributeOrEmpty element ''id'' = []"
      "attributeOrEmpty element ''name'' = []" "attributeOrEmpty element ''placeholder'' = []"
  proof
    fix f assume "f \<in> set fs"
    from 1 [OF this] that show "f_element f \<noteq> p" by auto
  qed
  from 1 2 3 show ?thesis by blast
qed

theorem identity_invariant_witness:
  "detectFields noLabels signupDoc = Inr (formFields noLabels (d_root signupDoc))
   \<and> node_at (d_root signupDoc) [0, 0, 3] = Some (htmlTag ''input'' [(''type'', ''text'')] [])
   \<and> [0, 0, 3] \<notin> f_element ` set (formFields noLabels (d_root signupDoc))
   \<and> map f_id (formFields noLabels (d_root signupDoc)) = [[], [], ''country'', []]
   \<and> map f_name (formFields noLabels (d_root signupDoc)) = [''email'', ''comments'', [], []]
   \<and> map f_placeholder (formFields noLabels (d_root signupDoc))
       = [Some [], Some [], Some [], Some ''Anything'']"
proof -
  let ?e = "htmlTag ''input'' [(''type'', ''text'')] []"
  have r: "detectFields noLabels signupDoc = Inr (formFields noLabels (d_root signupDoc))"
    by code_simp
  have a: "node_at (d_root signupDoc) [0, 0, 3] = Some ?e"
    by code_simp
  have b: "attributeOrEmpty ?e ''id'' = []" "attributeOrEmpty ?e ''name'' = []"
    "attributeOrEmpty ?e ''placeholder'' = []"
    by (simp_all add: attributeOrEmpty_def htmlTag_def)
  have c: "map f_id (formFields noLabels (d_root signupDoc)) = [[], [], ''country'', []]"
    "map f_name (formFields noLabels (d_root signupDoc)) = [''email'', ''comments'', [], []]"
    "map f_placeholder (formFields noLabels (d_root signupDoc))
       = [Some [], Some [], Some [], Some ''Anything'']"
    by code_simp+
  from identity_invariant [OF r, of "[0, 0, 3]" ?e] a b
  have "[0, 0, 3] \<notin> f_element ` set (formFields noLabels (d_root signupDoc))"
    by auto
  with r a c show ?thesis by simp
qed

lemma determineFieldType_input:
  "toLowerCase (tagName e) = ''input'' \<Longrightarrow>
   determineFieldType e \<noteq> UNKNOWN
   \<and> (getAttribute e ''type'' \<notin> Some ` set knownTypes \<longrightarrow> determineFieldType e = TEXT)"
  by (simp add: determineFieldType_def Let_def knownTypes_def)

lemma determineFieldType_known:
  assumes "toLowerCase (tagName n) \<in> {''input'', ''select'', ''textarea''}"
  shows "determineFieldType n \<noteq> UNKNOWN"
proof -
  from assms consider
    (i) "toLowerCase (tagName n) = ''input''"
    | (s) "toLowerCase (tagName n) = ''select''"
    | (t) "toLowerCase (tagName n) = ''textarea''"
    by blast
  then show ?thesis
  proof cases
    case i
    then show ?thesis using determineFieldType_input [of n] by simp
  next
    case s
    then show ?thesis by (simp add: determineFieldType_def)
  next
    case t
    then show ?thesis by (simp add: determineFieldType_def)
  qed
qed

lemma lower_upper_names:
  "toLowerCase (toUpperCase ''input'') = ''input''"
  "toLowerCase (toUpperCase ''select'') = ''select''"
  "toLowerCase (toUpperCase ''textarea'') = ''textarea''"
  "toLowerCase ''input'' = ''input''"
  "toLowerCase ''select'' = ''select''"
  "toLowerCase ''textarea'' = ''textarea''"
  by code_simp+

lemma fillable_unprefixed:
  assumes "fillable n" and "prefixOf n = None"
  shows "toLowerCase (tagName n) = localName n"
proof (cases n)
  case (Elem html pfx name attrs kids)
  with assms have "pfx = None"
    by simp
  from Elem assms(1) have "name = ''input'' \<or> name = ''select'' \<or> name = ''textarea''"
    by (simp add: fillable_def)
  then consider "name = ''input''" | "name = ''select''" | "name = ''textarea''"
    by blast
  then show ?thesis
    by cases (cases html; simp add: Elem \<open>pfx = None\<close> lower_upper_names)+
next
  case (Text s)
  with assms show ?thesis by (simp add: fillable_def)
qed

text \<open>
  C10, as the code has it.  Every field in the output of \<open>detectFields\<close> comes from
  an element whose local name is input, select or textarea, and its type is the one
  \<open>determineFieldType\<close> gives that element from its tag name.  When the element has no
  namespace prefix, as every element of an HTML page, that type is not UNKNOWN.  A tag
  name that reads textarea in lower case maps to TEXTAREA, select to SELECT, and input
  to a type other than UNKNOWN: to TEXT when the type attribute is absent or not one
  of the known values.
\<close>

theorem detected_type_known:
  assumes "detectFields qs d = Inr fs"
  shows "(\<forall>f\<in>set fs.
      \<exists>element. node_at (d_root d) (f_element f) = Some element
        \<and> isElement element
        \<and> localName element \<in> {''input'', ''select'', ''textarea''}
        \<and> f_type f = determineFieldType element
        \<and> (prefixOf element = None \<longrightarrow> f_type f \<noteq> UNKNOWN))
   \<and> (toLowerCase (tagName e) = ''textarea'' \<longrightarrow> determineFieldType e = TEXTAREA)
   \<and> (toLowerCase (tagName e) = ''select'' \<longrightarrow> determineFieldType e = SELECT)
   \<and> (toLowerCase (tagName e) = ''input'' \<longrightarrow>
        determineFieldType e \<noteq> UNKNOWN
        \<and> (getAttribute e ''type'' \<notin> Some ` set knownTypes \<longrightarrow> determineFieldType e = TEXT))"
proof -
  have 1: "\<exists>element. node_at (d_root d) (f_element f) = Some element
        \<and> isElement element
        \<and> localName element \<in> {''input'', ''select'', ''textarea''}
        \<and> f_type f = determineFieldType element
        \<and> (prefixOf element = None \<longrightarrow> f_type f \<noteq> UNKNOWN)"
    if "f \<in> set fs" for f
  proof -
    from detectFields_origin [OF assms that] obtain n where
      n: "node_at (d_root d) (f_element f) = Some n" "fillable n"
         "createDetectedField qs (d_root d) (f_element f) n = Inr (Some f)"
      by blast
    from createDetectedField_Some(6) [OF n(3)] have t: "f_type f = determineFieldType n" .
    have u: "prefixOf n = None \<longrightarrow> f_type f \<noteq> UNKNOWN"
    proof
      assume "prefixOf n = None"
      from fillable_unprefixed [OF n(2) this] n(2)
      have "toLowerCase (tagName n) \<in> {''input'', ''select'', ''textarea''}"
        by (simp add: fillable_def)
      from determineFieldType_known [OF this] t show "f_type f \<noteq> UNKNOWN"
        by simp
    qed
    from n(2) have "isElement n" and "localName n \<in> {''input'', ''select'', ''textarea''}"
      by (simp_all add: fillable_def)
    with n(1) t u show ?thesis
      by (intro exI [of _ n] conjI)
  qed
  have 2: "toLowerCase (tagName e) = ''textarea'' \<longrightarrow> determineFieldType e = TEXTAREA"
    by (simp add: determineFieldType_def)
  have 3: "toLowerCase (tagName e) = ''select'' \<longrightarrow> determineFieldType e = SELECT"
    by (simp add: determineFieldType_def)
  have 4: "toLowerCase (tagName e) = ''input'' \<longrightarrow>
        determineFieldType e \<noteq> UNKNOWN
        \<and> (getAttribute e ''type'' \<notin> Some ` set knownTypes \<longrightarrow> determineFieldType e = TEXT)"
    using determineFieldType_input [of e] by (rule impI)
  from 1 have "\<forall>f\<in>set fs.
      \<exists>element. node_at (d_root d) (f_element f) = Some element
        \<and> isElement element
        \<and> localName element \<in> {''input'', ''select'', ''textarea''}
        \<and> f_type f = determineFieldType element
        \<and> (prefixOf element = None \<longrightarrow> f_type f \<noteq> UNKNOWN)"
    by (rule ballI)
  with 2 3 4 show ?thesis
    by (intro conjI)
qed

theorem detected_type_known_witness:
  "detectFields noLabels signupDoc = Inr (formFields noLabels (d_root signupDoc))
   \<and> map f_type (formFields noLabels (d_root signupDoc)) = [EMAIL, TEXTAREA, SELECT, TEXT]
   \<and> list_all (\<lambda>n. prefixOf n = None) (map snd (descendants [] (d_root signupDoc)))
   \<and> tagName (htmlTag ''input'' [(''type'', ''fancy''), (''placeholder'', ''Anything'')] []) = ''INPUT''
   \<and> getAttribute (htmlTag ''input'' [(''type'', ''fancy''), (''placeholder'', ''Anything'')] []) ''type''
        \<notin> Some ` set knownTypes
   \<and> determineFieldType (htmlTag ''input'' [(''type'', ''fancy''), (''placeholder'', ''Anything'')] []) = TEXT
   \<and> determineFieldType (htmlTag ''textarea'' [(''name'', ''comments'')] [Text ''Hello'']) = TEXTAREA
   \<and> determineFieldType (htmlTag ''select'' [(''type'', ''text'')] []) = SELECT
   \<and> determineFieldType (htmlTag ''div'' [] []) = UNKNOWN"
proof -
  let ?e = "htmlTag ''input'' [(''type'', ''fancy''), (''placeholder'', ''Anything'')] []"
  let ?t = "htmlTag ''textarea'' [(''name'', ''comments'')] [Text ''Hello'']"
  let ?s = "htmlTag ''select'' [(''type'', ''text'')] []"
  have r: "detectFields noLabels signupDoc = Inr (formFields noLabels (d_root signupDoc))"
    by code_simp
  have a: "map f_type (formFields noLabels (d_root signupDoc)) = [EMAIL, TEXTAREA, SELECT, TEXT]"
    by code_simp
  have p: "list_all (\<lambda>n. prefixOf n = None) (map snd (descendants [] (d_root signupDoc)))"
    by code_simp
  have b: "tagName ?e = ''INPUT''" and b': "toLowerCase (tagName ?e) = ''input''"
    by code_simp+
  have c: "getAttribute ?e ''type'' \<notin> Some ` set knownTypes"
    by (simp add: knownTypes_def htmlTag_def)
  have d: "toLowerCase (tagName ?t) = ''textarea''"
    by code_simp
  have s: "toLowerCase (tagName ?s) = ''select''"
    by code_simp
  have u: "determineFieldType (htmlTag ''div'' [] []) = UNKNOWN"
    by code_simp
  from detected_type_known [OF r, of ?e] b' c
  have 2: "determineFieldType ?e = TEXT"
    by simp
  from detected_type_known [OF r, of ?t] d
  have 3: "determineFieldType ?t = TEXTAREA"
    by simp
  from detected_type_known [OF r, of ?s] s
  have 4: "determineFieldType ?s = SELECT"
    by simp
  from r a p b c 2 3 4 u show ?thesis by simp
qed

text \<open>
  The claim as worded fails on the XHTML document: the selector finds the element
  \<open>h:input\<close> by its local name, \<open>determineFieldType\<close> reads the tag name \<open>h:input\<close>,
  which is none of textarea, select and input, and the field is returned with the
  type UNKNOWN.
\<close>

theorem detected_type_counterexample:
  "tagName (Elem False (Some ''h'') ''input'' [(''type'', ''email''), (''name'', ''email'')] [])
     = ''h:input''
   \<and> detectFields noLabels xhtmlDoc
       = Inr [\<lparr>f_id = [], f_name = ''email'', f_type = UNKNOWN, f_element = [0, 0, 0],
               f_label = None, f_placeholder = Some [],
               f_attributes = [(''type'', ''email''), (''name'', ''email'')]\<rparr>]"
  by code_simp

end
